theory Spec2Isabelle
  imports Complex_Main "HOL-Library.Word"
begin

section \<open>The MEMT decoding server (MEMT/cpp/Server.cc)\<close>

text \<open>
  The server parses its startup options, loads one language model, and then serves
  connections one at a time: each connection carries a block of key/value options, which
  \<open>QueryConfigParser::Parse\<close> stores into a \<open>QueryConfig\<close>; the decoder is run on that
  configuration and the client is answered with a single line.

  Conventions of the embedding.
  \<^item> Exceptions are values: a function that can throw returns the exception beside the
    state it leaves behind.
  \<^item> The members \<open>desc_\<close>, \<open>config_\<close> and \<open>confidence_string_\<close> drop their trailing
    underscore; the member \<open>text\<close> is written \<open>text'\<close>.
  \<^item> Floating-point scores (\<open>LinearScore\<close>, \<open>LogScore\<close>, the scorer weights) are
    modelled by the real number they denote; rounding is not modelled. The headers that
    declare the field types of \<open>input::Config\<close> and \<open>DecoderConfig\<close> are not part of the
    sources, so counts and sizes are natural numbers and weights are reals.
  \<^item> The conversions done by the C and C++ libraries on text whose numeric type is not
    declared in the sources (\<open>lexical_cast\<close> to a score or an unsigned integer, the
    conversion of a scanned floating-point field) are parameters, collected in the
    record \<open>conversions\<close>.
\<close>

subsection \<open>Characters\<close>

definition isspace :: "char \<Rightarrow> bool" where
  "isspace c = (c = CHR '' '' \<or> c = CHR 0x09 \<or> c = CHR 0x0A \<or> c = CHR 0x0B
                \<or> c = CHR 0x0C \<or> c = CHR 0x0D)"

definition isdigit :: "char \<Rightarrow> bool" where
  "isdigit c = (c \<in> set ''0123456789'')"

definition is_sign :: "char \<Rightarrow> bool" where
  "is_sign c = (c = CHR ''+'' \<or> c = CHR ''-'')"

text \<open>\<open>std::endl\<close> writes a newline (and flushes).\<close>

definition endl :: string where
  "endl = [CHR 0x0A]"

subsection \<open>Exceptions\<close>

text \<open>
  The classes derived from \<open>ArgumentParseError\<close> (lines 29-62, 178-190, 228-243) form one
  datatype; \<open>catch (ArgumentParseError &e)\<close> matches exactly its values. Every other
  \<open>std::exception\<close> the code can meet is thrown by a library: boost::program_options
  (an option that is not declared, a second occurrence of an option that holds one
  value, a value that does not convert) or a collaborator of the decoder.
\<close>

datatype ArgumentParseError =
    ArgumentCountException string nat nat
  | BadConfidence string
  | NoSuchLMError string

datatype library_error =
    unknown_option string
  | multiple_occurrences string
  | invalid_option_value string string
  | other_exception string

datatype exception =
    ArgumentParseError ArgumentParseError
  | std_exception library_error

subsection \<open>Decimal text of a count\<close>

text \<open>\<open>boost::lexical_cast<std::string>\<close> of an unsigned integer: its decimal digits.\<close>

definition digit_char :: "nat \<Rightarrow> char" where
  "digit_char d = ''0123456789'' ! d"

function lexical_cast_string :: "nat \<Rightarrow> string" where
  "lexical_cast_string n =
     (if n < 10 then [digit_char n]
      else lexical_cast_string (n div 10) @ [digit_char (n mod 10)])"
  by pat_completeness auto
termination
  by (relation "measure id") auto

declare lexical_cast_string.simps [simp del]

text \<open>
  \<open>what()\<close>. \<open>ArgumentCountException\<close> builds its text in the constructor (lines 41-47),
  \<open>BadConfidence\<close> returns the string it was given (line 183). \<open>NoSuchLMError\<close> declares
  \<open>what()\<close> without \<open>const\<close> (line 238), which does not override
  \<open>std::exception::what() const\<close>: through a reference to the base class the library's
  default text is returned, here the one of GNU libstdc++.
\<close>

fun what :: "ArgumentParseError \<Rightarrow> string" where
  "what (ArgumentCountException key expected times') =
     ''Expected '' @ key @ '' >= '' @ lexical_cast_string expected
       @ '' times, got it '' @ lexical_cast_string times' @ ''.''"
| "what (BadConfidence provided) = provided"
| "what (NoSuchLMError ty) = ''std::exception''"

subsection \<open>Reading numbers from a string stream\<close>

text \<open>
  \<open>std::istringstream\<close>, as far as \<open>ParseConfidences\<close> uses it: the characters not yet
  read and the two state bits the loop and the final test look at.
\<close>

record istringstream =
  rdbuf :: string
  eofbit :: bool
  failbit :: bool

text \<open>
  The field that \<open>num_get\<close> accumulates for a floating-point value, together with the
  characters it leaves in the stream. This is the scan of GNU libstdc++
  (\<open>_M_extract_float\<close>, "C" locale): an optional sign, then digits, at most one decimal
  point (before any exponent), and at most one \<open>e\<close> or \<open>E\<close> (after at least one digit)
  with an optional sign directly behind it; the first character that fits none of these
  ends the field and stays in the stream. The three flags are \<open>__found_mantissa\<close>,
  \<open>__found_dec\<close> and \<open>__found_sci\<close>. (libstdc++ hands the conversion a normalised copy
  of the field, with leading zeros collapsed and \<open>E\<close> written \<open>e\<close>; the model passes the
  characters read, which denote the same number.)
\<close>

definition accumulate :: "char \<Rightarrow> string \<times> string \<Rightarrow> string \<times> string" where
  "accumulate c p = (c # fst p, snd p)"

fun float_body :: "bool \<Rightarrow> bool \<Rightarrow> bool \<Rightarrow> string \<Rightarrow> string \<times> string" where
  "float_body m d s [] = ([], [])"
| "float_body m d s (c # cs) =
     (if isdigit c then accumulate c (float_body True d s cs)
      else if c = CHR ''.'' \<and> \<not> d \<and> \<not> s then accumulate c (float_body m True s cs)
      else if (c = CHR ''e'' \<or> c = CHR ''E'') \<and> \<not> s \<and> m then
        (case cs of
           [] \<Rightarrow> ([c], [])
         | x # xs \<Rightarrow>
             if is_sign x then accumulate c (accumulate x (float_body m d True xs))
             else accumulate c (float_body m d True cs))
      else ([], c # cs))"

definition extract_float :: "string \<Rightarrow> string \<times> string" where
  "extract_float b =
     (case b of
        [] \<Rightarrow> ([], [])
      | c # cs \<Rightarrow>
          if is_sign c then accumulate c (float_body False False False cs)
          else float_body False False False b)"

text \<open>
  \<open>parser >> score\<close>. The sentry fails at once when the stream is not good; otherwise it
  skips white space, and reaching the end there sets \<open>eofbit\<close> and \<open>failbit\<close>. Then the
  field is accumulated and converted: \<open>eofbit\<close> is set when the accumulation ran into the
  end of the string, \<open>failbit\<close> when the field does not convert (an empty field never
  does). \<open>conv\<close> is the conversion of a field to a \<open>LinearScore\<close>.
\<close>

definition extract_score :: "(string \<Rightarrow> real option) \<Rightarrow> istringstream \<Rightarrow> real option \<times> istringstream" where
  "extract_score conv s =
     (if eofbit s \<or> failbit s then (None, s\<lparr>failbit := True\<rparr>)
      else
        (case dropWhile isspace (rdbuf s) of
           [] \<Rightarrow> (None, \<lparr>rdbuf = [], eofbit = True, failbit = True\<rparr>)
         | c # cs \<Rightarrow>
             (let (field, rest) = extract_float (c # cs) in
              (case (if field = [] then None else conv field) of
                 None \<Rightarrow> (None, \<lparr>rdbuf = rest, eofbit = (rest = []), failbit = True\<rparr>)
               | Some score \<Rightarrow>
                   (Some score, \<lparr>rdbuf = rest, eofbit = (rest = []), failbit = False\<rparr>)))))"

lemma float_body_splits: "fst (float_body m d s b) @ snd (float_body m d s b) = b"
  by (induction m d s b rule: float_body.induct)
    (auto simp: accumulate_def split: list.splits)

lemma extract_float_splits: "extract_float b = (f, r) \<Longrightarrow> b = f @ r"
  using float_body_splits [of False False False b]
    float_body_splits [of False False False "tl b"]
  by (cases b) (auto simp: extract_float_def accumulate_def split: if_splits)

lemma extract_consumes:
  assumes "extract_score conv s = (Some v, s')"
  shows "length (rdbuf s') < length (rdbuf s)"
proof -
  from assms obtain c cs field rest where
    b: "dropWhile isspace (rdbuf s) = c # cs" and
    f: "extract_float (c # cs) = (field, rest)" and
    ne: "field \<noteq> []" and s': "rdbuf s' = rest"
    by (auto simp: extract_score_def split: if_splits list.splits prod.splits option.splits)
  from extract_float_splits [OF f] ne have "length rest < length (c # cs)"
    by (metis append_eq_conv_conj length_drop diff_less length_greater_0_conv
        length_Cons zero_less_Suc)
  moreover have "length (dropWhile isspace (rdbuf s)) \<le> length (rdbuf s)"
    by (rule length_dropWhile_le)
  ultimately show ?thesis using b s' by simp
qed

text \<open>The loop \<open>while (parser >> score) confidences.push_back(score)\<close> (lines 196-198).\<close>

function read_scores ::
  "(string \<Rightarrow> real option) \<Rightarrow> istringstream \<Rightarrow> real list \<Rightarrow> real list \<times> istringstream" where
  "read_scores conv parser confidences =
     (case extract_score conv parser of
        (Some score, parser') \<Rightarrow> read_scores conv parser' (confidences @ [score])
      | (None, parser') \<Rightarrow> (confidences, parser'))"
  by pat_completeness auto
termination
  by (relation "measure (\<lambda>(conv, parser, confidences). length (rdbuf parser))")
    (auto dest: extract_consumes [OF sym])

declare read_scores.simps [simp del]

text \<open>
  \<open>ParseConfidences\<close> (lines 192-200). The vector is an output parameter: it is cleared,
  filled by the loop, and keeps what was read when \<open>BadConfidence\<close> is thrown. The result
  is the vector and the exception, if any.
\<close>

definition ParseConfidences ::
  "(string \<Rightarrow> real option) \<Rightarrow> string \<Rightarrow> real list \<times> ArgumentParseError option" where
  "ParseConfidences conv as_string =
     (let (confidences, parser) =
            read_scores conv \<lparr>rdbuf = as_string, eofbit = False, failbit = False\<rparr> []
      in (confidences, if \<not> eofbit parser then Some (BadConfidence as_string) else None))"

subsection \<open>boost::program_options\<close>

text \<open>
  What the server uses of the library. A source of options (the configuration block of a
  request, the command line) is read by the library into the sequence of its
  assignments \<open>key = token\<close>, in the order written; this sequence is the input of the
  model.

  An option description binds a key to a typed target: \<open>po::value(&field)\<close>, with or
  without \<open>default_value\<close>. The value kept in the variables map is handed back only to
  the description's own \<open>notify\<close>, which assigns it to the field; so the model keeps,
  for a stored value, the assignment that \<open>notify\<close> will do. \<open>parse\<close> is \<open>None\<close>
  when the token does not convert to the field's type.
\<close>

record 's option_description =
  long_name :: string
  parse :: "string \<Rightarrow> ('s \<Rightarrow> 's) option"
  default_value :: "('s \<Rightarrow> 's) option"

type_synonym parsed_options = "(string \<times> string) list"

type_synonym 's variables_map = "string \<rightharpoonup> ('s \<Rightarrow> 's)"

definition find_description ::
  "'s option_description list \<Rightarrow> string \<Rightarrow> 's option_description option" where
  "find_description desc key = find (\<lambda>d. long_name d = key) desc"

text \<open>
  \<open>parse_config_file\<close> and \<open>parse_command_line\<close> with unregistered options not allowed:
  the first key that is not described raises \<open>unknown_option\<close>.
\<close>

definition parse_registered ::
  "'s option_description list \<Rightarrow> parsed_options \<Rightarrow> library_error + parsed_options" where
  "parse_registered desc source =
     (case find (\<lambda>(key, token). find_description desc key = None) source of
        Some (key, token) \<Rightarrow> Inl (unknown_option key)
      | None \<Rightarrow> Inr source)"

text \<open>
  \<open>po::store\<close>, first part: each assignment is validated and stored, in order. A key that
  already holds a value raises \<open>multiple_occurrences\<close> (none of the server's options is
  composing), a token that does not convert raises \<open>invalid_option_value\<close>.
\<close>

fun store_options ::
  "'s option_description list \<Rightarrow> parsed_options \<Rightarrow> 's variables_map
     \<Rightarrow> library_error + 's variables_map" where
  "store_options desc [] vm = Inr vm"
| "store_options desc ((key, token) # options) vm =
     (case find_description desc key of
        None \<Rightarrow> Inl (unknown_option key)
      | Some d \<Rightarrow>
          if vm key \<noteq> None then Inl (multiple_occurrences key)
          else
            (case parse d token of
               None \<Rightarrow> Inl (invalid_option_value key token)
             | Some v \<Rightarrow> store_options desc options (vm(key \<mapsto> v))))"

text \<open>\<open>po::store\<close>, second part: every described key that holds no value gets its default.\<close>

definition apply_default :: "'s option_description \<Rightarrow> 's variables_map \<Rightarrow> 's variables_map" where
  "apply_default d vm =
     (if vm (long_name d) = None
      then (case default_value d of None \<Rightarrow> vm | Some v \<Rightarrow> vm(long_name d \<mapsto> v))
      else vm)"

definition store ::
  "'s option_description list \<Rightarrow> parsed_options \<Rightarrow> 's variables_map
     \<Rightarrow> library_error + 's variables_map" where
  "store desc options vm =
     (case store_options desc options vm of
        Inl e \<Rightarrow> Inl e
      | Inr vm' \<Rightarrow> Inr (fold apply_default desc vm'))"

text \<open>\<open>po::notify\<close>: every value of the map is assigned to its field.\<close>

definition notify_one :: "'s variables_map \<Rightarrow> 's option_description \<Rightarrow> 's \<Rightarrow> 's" where
  "notify_one vm d st = (case vm (long_name d) of None \<Rightarrow> st | Some assign \<Rightarrow> assign st)"

definition notify :: "'s option_description list \<Rightarrow> 's variables_map \<Rightarrow> 's \<Rightarrow> 's" where
  "notify desc vm st = fold (notify_one vm) desc st"

text \<open>
  \<open>vm.count(key)\<close>: \<open>po::variables_map\<close> is a \<open>std::map\<close>, so the count of a key is 0
  or 1.
\<close>

definition count :: "'s variables_map \<Rightarrow> string \<Rightarrow> nat" where
  "count vm key = (if vm key = None then 0 else 1)"

text \<open>\<open>CheckOnce\<close> (lines 64-69): \<open>None\<close> when the loop ends without throwing.\<close>

fun CheckOnce :: "'s variables_map \<Rightarrow> string list \<Rightarrow> ArgumentParseError option" where
  "CheckOnce vm [] = None"
| "CheckOnce vm (key # keys) =
     (if count vm key \<noteq> 1 then Some (ArgumentCountException key 1 (count vm key))
      else CheckOnce vm keys)"

text \<open>
  The typed values. \<open>lexical_cast\<close> to a score and to an unsigned integer are taken from
  the record of conversions; a string option takes its token as it is; a \<open>bool\<close> option
  accepts the library's spellings, in any case.
\<close>

record conversions =
  lexical_cast_score :: "string \<Rightarrow> real option"
  lexical_cast_unsigned :: "string \<Rightarrow> nat option"
  convert_field :: "string \<Rightarrow> real option"
  ngram_base_default :: real

definition tolower :: "char \<Rightarrow> char" where
  "tolower c =
     (let n = (of_char c :: nat) in if 65 \<le> n \<and> n \<le> 90 then char_of (n + 32) else c)"

definition validate_bool :: "string \<Rightarrow> bool option" where
  "validate_bool token =
     (let s = map tolower token in
      if s = [] \<or> s = ''on'' \<or> s = ''yes'' \<or> s = ''1'' \<or> s = ''true'' then Some True
      else if s = ''off'' \<or> s = ''no'' \<or> s = ''0'' \<or> s = ''false'' then Some False
      else None)"

definition typed_value ::
  "string \<Rightarrow> (string \<Rightarrow> 'a option) \<Rightarrow> ('a \<Rightarrow> 's \<Rightarrow> 's) \<Rightarrow> 'a option \<Rightarrow> 's option_description" where
  "typed_value key cast assign dflt =
     \<lparr>long_name = key, parse = (\<lambda>token. map_option assign (cast token)),
      default_value = map_option assign dflt\<rparr>"

subsection \<open>The configuration of a request\<close>

text \<open>
  \<open>QueryConfig\<close> (lines 77-83) with the fields of \<open>input::Config\<close> and \<open>DecoderConfig\<close>
  that this file names; the members \<open>scorer\<close>, \<open>scorer.fuzz\<close> and \<open>coverage\<close> of the
  decoder configuration are flattened into prefixed field names.
\<close>

record input_Config =
  confidences :: "real list"
  horizon_radius :: nat
  pick_best :: bool
  transitive :: bool

record DecoderConfig =
  scorer_lm :: real
  scorer_alignment :: real
  scorer_ngram :: real
  scorer_ngram_base :: real
  scorer_overlap :: real
  scorer_fuzz_ratio :: real
  internal_beam_size :: nat
  length_normalize :: bool
  end_beam_size :: nat
  coverage_old_horizon :: nat
  coverage_use_new :: bool
  coverage_stay_threshold :: real

record QueryConfig =
  text' :: input_Config
  decoder :: DecoderConfig
  output_oracle_prefix :: string
  output_one_best :: string
  input_matched :: string

text \<open>
  The state of a \<open>QueryConfigParser\<close> (lines 85-99). \<open>desc_\<close> is built by the
  constructor and never changes, so it is the constant \<open>desc\<close> below.
\<close>

record QueryConfigParser =
  confidence_string :: string
  config :: QueryConfig

definition in_config :: "(QueryConfig \<Rightarrow> QueryConfig) \<Rightarrow> QueryConfigParser \<Rightarrow> QueryConfigParser" where
  "in_config f p = p\<lparr>config := f (config p)\<rparr>"

definition in_decoder :: "(DecoderConfig \<Rightarrow> DecoderConfig) \<Rightarrow> QueryConfigParser \<Rightarrow> QueryConfigParser" where
  "in_decoder f = in_config (\<lambda>c. c\<lparr>decoder := f (decoder c)\<rparr>)"

definition in_text :: "(input_Config \<Rightarrow> input_Config) \<Rightarrow> QueryConfigParser \<Rightarrow> QueryConfigParser" where
  "in_text f = in_config (\<lambda>c. c\<lparr>text' := f (text' c)\<rparr>)"

text \<open>The options of a request (constructor, lines 102-176), in the order declared.\<close>

definition desc :: "conversions \<Rightarrow> QueryConfigParser option_description list" where
  "desc cv =
    [typed_value ''score.lm'' (lexical_cast_score cv)
       (\<lambda>x. in_decoder (\<lambda>d. d\<lparr>scorer_lm := x\<rparr>)) None,
     typed_value ''score.alignment'' (lexical_cast_score cv)
       (\<lambda>x. in_decoder (\<lambda>d. d\<lparr>scorer_alignment := x\<rparr>)) None,
     typed_value ''score.ngram'' (lexical_cast_score cv)
       (\<lambda>x. in_decoder (\<lambda>d. d\<lparr>scorer_ngram := x\<rparr>)) None,
     typed_value ''score.ngram_base'' (lexical_cast_score cv)
       (\<lambda>x. in_decoder (\<lambda>d. d\<lparr>scorer_ngram_base := x\<rparr>)) (Some (ngram_base_default cv)),
     typed_value ''score.overlap'' (lexical_cast_score cv)
       (\<lambda>x. in_decoder (\<lambda>d. d\<lparr>scorer_overlap := x\<rparr>)) None,
     typed_value ''score.fuzz.ratio'' (lexical_cast_score cv)
       (\<lambda>x. in_decoder (\<lambda>d. d\<lparr>scorer_fuzz_ratio := x\<rparr>)) (Some 0.0),
     typed_value ''beam_size'' (lexical_cast_unsigned cv)
       (\<lambda>x. in_decoder (\<lambda>d. d\<lparr>internal_beam_size := x\<rparr>)) (Some 500),
     typed_value ''length_normalize'' validate_bool
       (\<lambda>x. in_decoder (\<lambda>d. d\<lparr>length_normalize := x\<rparr>)) (Some True),
     typed_value ''output.nbest'' (lexical_cast_unsigned cv)
       (\<lambda>x. in_decoder (\<lambda>d. d\<lparr>end_beam_size := x\<rparr>)) (Some 1),
     typed_value ''horizon.radius'' (lexical_cast_unsigned cv)
       (\<lambda>x. in_decoder (\<lambda>d. d\<lparr>coverage_old_horizon := x\<rparr>)) (Some 5),
     typed_value ''horizon.new'' validate_bool
       (\<lambda>x. in_decoder (\<lambda>d. d\<lparr>coverage_use_new := x\<rparr>)) (Some False),
     typed_value ''horizon.threshold'' (lexical_cast_score cv)
       (\<lambda>x. in_decoder (\<lambda>d. d\<lparr>coverage_stay_threshold := x\<rparr>)) (Some 0.8),
     typed_value ''output.oracle_prefix'' Some
       (\<lambda>x. in_config (\<lambda>c. c\<lparr>output_oracle_prefix := x\<rparr>)) (Some []),
     typed_value ''output.one_best'' Some
       (\<lambda>x. in_config (\<lambda>c. c\<lparr>output_one_best := x\<rparr>)) None,
     typed_value ''input.matched_file'' Some
       (\<lambda>x. in_config (\<lambda>c. c\<lparr>input_matched := x\<rparr>)) None,
     typed_value ''input.confidence'' Some
       (\<lambda>x p. p\<lparr>confidence_string := x\<rparr>) None,
     typed_value ''align.pick_best'' validate_bool
       (\<lambda>x. in_text (\<lambda>t. t\<lparr>pick_best := x\<rparr>)) (Some False),
     typed_value ''align.transitive'' validate_bool
       (\<lambda>x. in_text (\<lambda>t. t\<lparr>transitive := x\<rparr>)) (Some False)]"

definition mandatory_options :: "string list" where
  "mandatory_options =
     [''score.lm'', ''score.alignment'', ''score.ngram'', ''score.overlap'',
      ''output.one_best'', ''input.matched_file'', ''input.confidence'']"

text \<open>
  \<open>QueryConfigParser::Parse\<close> (lines 202-215). The variables map is a fresh local; the
  parser's members are written by \<open>notify\<close>, by \<open>ParseConfidences\<close> and by the copy of
  the horizon radius, and keep what was written when an exception leaves the function.
  The result is the exception, if any, and the parser afterwards. (The three lines
  echoed to \<open>std::cout\<close> are left out.)
\<close>

definition Parse ::
  "conversions \<Rightarrow> parsed_options \<Rightarrow> QueryConfigParser \<Rightarrow> exception option \<times> QueryConfigParser" where
  "Parse cv stream p =
     (case parse_registered (desc cv) stream of
        Inl e \<Rightarrow> (Some (std_exception e), p)
      | Inr options \<Rightarrow>
          (case store (desc cv) options Map.empty of
             Inl e \<Rightarrow> (Some (std_exception e), p)
           | Inr vm \<Rightarrow>
               (let p1 = notify (desc cv) vm p in
                (case CheckOnce vm mandatory_options of
                   Some e \<Rightarrow> (Some (ArgumentParseError e), p1)
                 | None \<Rightarrow>
                     (let (scores, thrown) =
                            ParseConfidences (convert_field cv) (confidence_string p1);
                          p2 = in_text (\<lambda>t. t\<lparr>confidences := scores\<rparr>) p1
                      in (case thrown of
                            Some e \<Rightarrow> (Some (ArgumentParseError e), p2)
                          | None \<Rightarrow>
                              (None,
                               in_text (\<lambda>t. t\<lparr>horizon_radius :=
                                   coverage_old_horizon (decoder (config p2))\<rparr>) p2)))))))"

subsection \<open>Decoding and the accept loop\<close>

text \<open>
  \<open>RunDecoder\<close> (lines 263-278) drives collaborators that are not part of the sources:
  the input factory, the decoder and the two writers. They are parameters: \<open>Make\<close> gives
  the inputs the factory makes, one per successful call, from the input configuration
  and the matched file it is given by name; \<open>Run\<close> gives the n-best list of one input,
  or the text of the \<open>std::exception\<close> the decoder throws. The effects on files are
  recorded in order: the one-best file is opened for writing, and every input adds a
  record to it and, when the oracle prefix is not empty, to the oracle output.
\<close>

record ('inp, 'hyp) collaborators =
  Make :: "input_Config \<Rightarrow> string \<Rightarrow> 'inp list"
  Run :: "DecoderConfig \<Rightarrow> 'inp \<Rightarrow> string + 'hyp list"

datatype ('inp, 'hyp) file_effect =
    Open_one_best string
  | Top_Write string "'hyp list" 'inp
  | Oracle_Write string "'hyp list" 'inp

fun decode_inputs ::
  "('inp, 'hyp) collaborators \<Rightarrow> QueryConfig \<Rightarrow> 'inp list \<Rightarrow> ('inp, 'hyp) file_effect list
     \<Rightarrow> ('inp, 'hyp) file_effect list \<times> library_error option" where
  "decode_inputs env cfg [] out = (out, None)"
| "decode_inputs env cfg (inp # inputs) out =
     (case Run env (decoder cfg) inp of
        Inl msg \<Rightarrow> (out, Some (other_exception msg))
      | Inr nbest \<Rightarrow>
          decode_inputs env cfg inputs
            (out @ Top_Write (output_one_best cfg) nbest inp
               # (if output_oracle_prefix cfg \<noteq> []
                  then [Oracle_Write (output_oracle_prefix cfg) nbest inp] else [])))"

definition RunDecoder ::
  "('inp, 'hyp) collaborators \<Rightarrow> QueryConfig
     \<Rightarrow> ('inp, 'hyp) file_effect list \<times> library_error option" where
  "RunDecoder env cfg =
     decode_inputs env cfg (Make env (text' cfg) (input_matched cfg))
       [Open_one_best (output_one_best cfg)]"

text \<open>
  One turn of the loop of \<open>RunLoadedService\<close> (lines 289-307), for the request read from
  the accepted connection: what is written to the client, the exception whose text goes
  to \<open>std::cerr\<close>, the configuration \<open>RunDecoder\<close> was called with, and the file effects.
  The parser is declared before the loop (line 283) and lives across connections.
\<close>

record ('inp, 'hyp) served =
  reply :: string
  logged :: "exception option"
  dispatched :: "QueryConfig option"
  effects :: "('inp, 'hyp) file_effect list"

definition serve_connection ::
  "('inp, 'hyp) collaborators \<Rightarrow> conversions \<Rightarrow> parsed_options \<Rightarrow> QueryConfigParser
     \<Rightarrow> ('inp, 'hyp) served \<times> QueryConfigParser" where
  "serve_connection env cv stream parser =
     (case Parse cv stream parser of
        (Some (ArgumentParseError e), parser') \<Rightarrow>
          (\<lparr>reply = what e @ endl, logged = Some (ArgumentParseError e),
            dispatched = None, effects = []\<rparr>, parser')
      | (Some (std_exception e), parser') \<Rightarrow>
          (\<lparr>reply = [], logged = Some (std_exception e), dispatched = None, effects = []\<rparr>,
           parser')
      | (None, parser') \<Rightarrow>
          (case RunDecoder env (config parser') of
             (out, Some e) \<Rightarrow>
               (\<lparr>reply = [], logged = Some (std_exception e),
                 dispatched = Some (config parser'), effects = out\<rparr>, parser')
           | (out, None) \<Rightarrow>
               (\<lparr>reply = ''Done'' @ endl, logged = None,
                 dispatched = Some (config parser'), effects = out\<rparr>, parser')))"

text \<open>
  The loop \<open>while (1)\<close> never ends by itself; the model runs it over the connections
  accepted so far, in order, and gives what each of them was served.
\<close>

fun accept_loop ::
  "('inp, 'hyp) collaborators \<Rightarrow> conversions \<Rightarrow> QueryConfigParser \<Rightarrow> parsed_options list
     \<Rightarrow> ('inp, 'hyp) served list" where
  "accept_loop env cv parser [] = []"
| "accept_loop env cv parser (stream # streams) =
     (case serve_connection env cv stream parser of
        (r, parser') \<Rightarrow> r # accept_loop env cv parser' streams)"

subsection \<open>Startup\<close>

record LMConfig =
  lm_type :: string
  lm_file :: string
  lm_order :: nat

text \<open>\<open>port\<close> is a \<open>short int\<close>: 16 bits, read as a signed number.\<close>

record ServiceConfig =
  lm :: LMConfig
  port :: "16 word"

definition digit_value :: "char \<Rightarrow> nat" where
  "digit_value c = of_char c - 48"

definition decimal_value :: "string \<Rightarrow> nat" where
  "decimal_value ds = foldl (\<lambda>n c. 10 * n + digit_value c) 0 ds"

text \<open>
  \<open>boost::lexical_cast<short>\<close>: an optional sign and decimal digits, nothing else, and
  a value that a \<open>short\<close> can hold.
\<close>

definition lexical_cast_short :: "string \<Rightarrow> 16 word option" where
  "lexical_cast_short token =
     (let negative = (token \<noteq> [] \<and> hd token = CHR ''-'');
          digits = (if token \<noteq> [] \<and> is_sign (hd token) then tl token else token)
      in if digits = [] \<or> \<not> list_all isdigit digits then None
         else if negative
           then (if decimal_value digits \<le> 32768
                 then Some (word_of_int (- int (decimal_value digits))) else None)
           else (if decimal_value digits \<le> 32767
                 then Some (word_of_nat (decimal_value digits)) else None))"

definition in_lm :: "(LMConfig \<Rightarrow> LMConfig) \<Rightarrow> ServiceConfig \<Rightarrow> ServiceConfig" where
  "in_lm f c = c\<lparr>lm := f (lm c)\<rparr>"

definition service_desc :: "conversions \<Rightarrow> ServiceConfig option_description list" where
  "service_desc cv =
    [typed_value ''lm.type'' Some (\<lambda>x. in_lm (\<lambda>l. l\<lparr>lm_type := x\<rparr>)) (Some ''salm''),
     typed_value ''lm.file'' Some (\<lambda>x. in_lm (\<lambda>l. l\<lparr>lm_file := x\<rparr>)) None,
     typed_value ''lm.order'' (lexical_cast_unsigned cv)
       (\<lambda>x. in_lm (\<lambda>l. l\<lparr>lm_order := x\<rparr>)) None,
     typed_value ''port'' lexical_cast_short (\<lambda>x c. c\<lparr>port := x\<rparr>) None]"

definition service_mandatory_options :: "string list" where
  "service_mandatory_options = [''lm.file'', ''lm.order'', ''port'']"

text \<open>
  \<open>ParseService\<close> (lines 245-261) on the assignments of the command line.
\<close>

definition ParseService ::
  "conversions \<Rightarrow> parsed_options \<Rightarrow> ServiceConfig \<Rightarrow> exception option \<times> ServiceConfig" where
  "ParseService cv argv cfg =
     (case parse_registered (service_desc cv) argv of
        Inl e \<Rightarrow> (Some (std_exception e), cfg)
      | Inr options \<Rightarrow>
          (case store (service_desc cv) options Map.empty of
             Inl e \<Rightarrow> (Some (std_exception e), cfg)
           | Inr vm \<Rightarrow>
               (let cfg1 = notify (service_desc cv) vm cfg in
                (case CheckOnce vm service_mandatory_options of
                   Some e \<Rightarrow> (Some (ArgumentParseError e), cfg1)
                 | None \<Rightarrow>
                     if lm_type (lm cfg1) \<noteq> ''salm'' \<and> lm_type (lm cfg1) \<noteq> ''sri''
                     then (Some (ArgumentParseError (NoSuchLMError (lm_type (lm cfg1)))), cfg1)
                     else (None, cfg1)))))"

text \<open>
  \<open>LoadAndRunService\<close> (lines 311-319): the model of the chosen kind is loaded from the
  file with the order given, and \<open>RunLoadedService\<close> is entered with it; the acceptor
  listens on the endpoint whose port is the \<open>short\<close> converted to the library's
  \<open>unsigned short\<close>. With any other type the function returns at once.
\<close>

datatype owner = sri_Owner string nat | sa_Owner string nat

datatype service = Listening owner nat | Nothing

definition LoadAndRunService :: "ServiceConfig \<Rightarrow> service" where
  "LoadAndRunService cfg =
     (if lm_type (lm cfg) = ''sri''
      then Listening (sri_Owner (lm_file (lm cfg)) (lm_order (lm cfg))) (unat (port cfg))
      else if lm_type (lm cfg) = ''salm''
      then Listening (sa_Owner (lm_file (lm cfg)) (lm_order (lm cfg))) (unat (port cfg))
      else Nothing)"

text \<open>
  \<open>main\<close> (lines 323-327). Nothing catches what \<open>ParseService\<close> throws: the exception
  ends the process (\<open>Inl\<close>) and \<open>LoadAndRunService\<close> is not reached. \<open>cfg\<close> is the
  configuration as declared, before it is parsed into.
\<close>

definition main :: "conversions \<Rightarrow> parsed_options \<Rightarrow> ServiceConfig \<Rightarrow> exception + service" where
  "main cv argv cfg =
     (case ParseService cv argv cfg of
        (Some e, cfg') \<Rightarrow> Inl e
      | (None, cfg') \<Rightarrow> Inr (LoadAndRunService cfg'))"

subsection \<open>Confidence strings, in the words of the specification\<close>

text \<open>
  The white-space separated words of a string, and the decimal floating-point literals:
  an optional sign, digits with at most one decimal point among them (at least one
  digit), and optionally an exponent (\<open>e\<close> or \<open>E\<close>, an optional sign, at least one
  digit).
\<close>

lemma dropWhile_isspace_hd: "dropWhile isspace s = c # cs \<Longrightarrow> \<not> isspace c"
  by (metis hd_dropWhile list.sel(1) list.discI)

function words :: "string \<Rightarrow> string list" where
  "words s =
     (case dropWhile isspace s of
        [] \<Rightarrow> []
      | c # cs \<Rightarrow>
          takeWhile (\<lambda>x. \<not> isspace x) (c # cs)
            # words (dropWhile (\<lambda>x. \<not> isspace x) (c # cs)))"
  by pat_completeness auto
termination
proof (relation "measure length", goal_cases)
  case 1
  then show ?case by simp
next
  case (2 s c cs)
  then have "\<not> isspace c" by (metis dropWhile_isspace_hd)
  then have "length (dropWhile (\<lambda>x. \<not> isspace x) (c # cs)) \<le> length cs"
    by (simp add: length_dropWhile_le)
  moreover have "length (c # cs) \<le> length s"
    using 2 length_dropWhile_le [of isspace s] by simp
  ultimately show ?case by simp
qed

declare words.simps [simp del]

definition digits1 :: "string \<Rightarrow> bool" where
  "digits1 ds = (ds \<noteq> [] \<and> list_all isdigit ds)"

definition strip_sign :: "string \<Rightarrow> string" where
  "strip_sign t = (case t of [] \<Rightarrow> [] | c # cs \<Rightarrow> if is_sign c then cs else t)"

definition exponent_part :: "string \<Rightarrow> bool" where
  "exponent_part r =
     (case r of
        [] \<Rightarrow> False
      | c # cs \<Rightarrow> (c = CHR ''e'' \<or> c = CHR ''E'') \<and> digits1 (strip_sign cs))"

definition float_literal :: "string \<Rightarrow> bool" where
  "float_literal t =
     (let u = strip_sign t;
          ip = takeWhile isdigit u;
          r1 = dropWhile isdigit u;
          fp = (case r1 of [] \<Rightarrow> []
                | c # cs \<Rightarrow> if c = CHR ''.'' then takeWhile isdigit cs else []);
          r2 = (case r1 of [] \<Rightarrow> []
                | c # cs \<Rightarrow> if c = CHR ''.'' then dropWhile isdigit cs else r1)
      in (ip \<noteq> [] \<or> fp \<noteq> []) \<and> (r2 = [] \<or> exponent_part r2))"

text \<open>
  "The scan does not reach the end of the string": after some numbers, a field that is
  empty or does not convert, with characters left behind it.
\<close>

function scan_stops_early :: "(string \<Rightarrow> real option) \<Rightarrow> string \<Rightarrow> bool" where
  "scan_stops_early conv s =
     (case dropWhile isspace s of
        [] \<Rightarrow> False
      | c # cs \<Rightarrow>
          (let (field, rest) = extract_float (c # cs) in
           if field = [] \<or> conv field = None then rest \<noteq> []
           else scan_stops_early conv rest))"
  by pat_completeness auto
termination
proof (relation "measure (\<lambda>(conv, s). length s)", goal_cases)
  case 1
  then show ?case by simp
next
  case (2 conv s c cs x field rest)
  then have "c # cs = field @ rest" by (metis extract_float_splits)
  with 2 have "length rest < length (c # cs)"
    by (metis append_eq_conv_conj length_drop diff_less length_greater_0_conv
        length_Cons zero_less_Suc)
  moreover have "length (c # cs) \<le> length s"
    using 2 length_dropWhile_le [of isspace s] by simp
  ultimately show ?case by simp
qed

declare scan_stops_early.simps [simp del]

subsection \<open>An instance of the conversions\<close>

text \<open>
  For the examples: the conversions of decimal text without exponent, exact. The
  default of \<open>score.ngram_base\<close> is taken as the number \<open>LogScore(1.0 / 3.0)\<close> is
  built from.
\<close>

definition plain_decimal :: "string \<Rightarrow> real option" where
  "plain_decimal t =
     (if float_literal t \<and> CHR ''e'' \<notin> set t \<and> CHR ''E'' \<notin> set t
      then
        (let u = strip_sign t;
             ip = takeWhile isdigit u;
             fp = drop 1 (dropWhile isdigit u);
             m = real (decimal_value ip) + real (decimal_value fp) / 10 ^ length fp
         in Some (if hd t = CHR ''-'' then - m else m))
      else None)"

definition plain_unsigned :: "string \<Rightarrow> nat option" where
  "plain_unsigned t = (if digits1 t then Some (decimal_value t) else None)"

definition plain_conversions :: conversions where
  "plain_conversions =
     \<lparr>lexical_cast_score = plain_decimal, lexical_cast_unsigned = plain_unsigned,
      convert_field = plain_decimal, ngram_base_default = 1 / 3\<rparr>"

section \<open>Properties of the confidence parser\<close>

subsection \<open>The scan of one field\<close>

definition ends_field :: "string \<Rightarrow> bool" where
  "ends_field r = (case r of [] \<Rightarrow> True | c # cs \<Rightarrow> isspace c)"

lemma isspace_not_field:
  "isspace c \<Longrightarrow>
   \<not> isdigit c \<and> c \<noteq> CHR ''.'' \<and> c \<noteq> CHR ''e'' \<and> c \<noteq> CHR ''E'' \<and> \<not> is_sign c"
  by (auto simp: isspace_def isdigit_def is_sign_def)

lemma float_body_stop: "ends_field r \<Longrightarrow> float_body m d s r = ([], r)"
  by (cases r) (auto simp: ends_field_def dest: isspace_not_field)

lemma float_body_digits:
  "list_all isdigit ds \<Longrightarrow>
   float_body m d s (ds @ r) =
     (ds @ fst (float_body (m \<or> ds \<noteq> []) d s r), snd (float_body (m \<or> ds \<noteq> []) d s r))"
  by (induction ds arbitrary: m) (auto simp: accumulate_def)

lemma float_body_digits_end:
  "list_all isdigit ds \<Longrightarrow> ends_field r \<Longrightarrow> float_body m d s (ds @ r) = (ds, r)"
  by (simp add: float_body_digits float_body_stop)

lemma float_body_exponent:
  assumes "exponent_part r2" and "ends_field r"
  shows "float_body True d False (r2 @ r) = (r2, r)"
proof -
  from assms(1) obtain c cs where r2: "r2 = c # cs" and c: "c = CHR ''e'' \<or> c = CHR ''E''"
    and ds: "digits1 (strip_sign cs)"
    by (auto simp: exponent_part_def split: list.splits)
  from c have nd: "\<not> isdigit c" "c \<noteq> CHR ''.''" by (auto simp: isdigit_def)
  from ds obtain x xs where cs: "cs = x # xs"
    by (cases cs) (auto simp: digits1_def strip_sign_def)
  show ?thesis
  proof (cases "is_sign x")
    case True
    with ds cs have "list_all isdigit xs" by (simp add: digits1_def strip_sign_def)
    then have "float_body True d True (xs @ r) = (xs, r)"
      using assms(2) by (rule float_body_digits_end)
    with True show ?thesis using r2 cs c nd by (auto simp: accumulate_def)
  next
    case False
    with ds cs have "list_all isdigit (x # xs)" by (simp add: digits1_def strip_sign_def)
    then have "float_body True d True ((x # xs) @ r) = (x # xs, r)"
      using assms(2) by (rule float_body_digits_end)
    with False show ?thesis using r2 cs c nd by (auto simp: accumulate_def)
  qed
qed

lemma float_body_tail:
  assumes "r2 = [] \<or> exponent_part r2" and "ends_field r"
  shows "float_body True d False (r2 @ r) = (r2, r)"
  using assms by (auto simp: float_body_stop float_body_exponent)

lemma takeWhile_all: "list_all P (takeWhile P xs)"
  by (induction xs) auto

lemma float_body_literal:
  assumes "float_literal t" and "ends_field r"
  shows "float_body False False False (strip_sign t @ r) = (strip_sign t, r)"
proof -
  define u where "u = strip_sign t"
  define ip where "ip = takeWhile isdigit u"
  define r1 where "r1 = dropWhile isdigit u"
  have u: "u = ip @ r1" by (simp add: ip_def r1_def)
  have ip: "list_all isdigit ip" by (simp add: ip_def takeWhile_all)
  have L: "(ip \<noteq> [] \<or>
            (case r1 of [] \<Rightarrow> []
             | c # cs \<Rightarrow> if c = CHR ''.'' then takeWhile isdigit cs else []) \<noteq> [])
         \<and> ((case r1 of [] \<Rightarrow> []
              | c # cs \<Rightarrow> if c = CHR ''.'' then dropWhile isdigit cs else r1) = []
            \<or> exponent_part
                (case r1 of [] \<Rightarrow> []
                 | c # cs \<Rightarrow> if c = CHR ''.'' then dropWhile isdigit cs else r1))"
    using assms(1) unfolding float_literal_def Let_def ip_def r1_def u_def .
  show ?thesis
  proof (cases r1)
    case Nil
    with L have "ip \<noteq> []" by simp
    with Nil ip assms(2) show ?thesis
      unfolding u_def [symmetric] u by (simp add: float_body_digits_end)
  next
    case (Cons c cs)
    have cnd: "\<not> isdigit c"
      using Cons unfolding r1_def by (metis hd_dropWhile list.sel(1) list.discI)
    show ?thesis
    proof (cases "c = CHR ''.''")
      case True
      define fp where "fp = takeWhile isdigit cs"
      define r2 where "r2 = dropWhile isdigit cs"
      have cs: "cs = fp @ r2" by (simp add: fp_def r2_def)
      have fp: "list_all isdigit fp" by (simp add: fp_def takeWhile_all)
      from L Cons True have m: "ip \<noteq> [] \<or> fp \<noteq> []" and t: "r2 = [] \<or> exponent_part r2"
        by (simp_all add: fp_def r2_def)
      have "float_body (ip \<noteq> [] \<or> fp \<noteq> []) True False (r2 @ r) = (r2, r)"
        using m float_body_tail [OF t assms(2)] by simp
      then have "float_body (ip \<noteq> []) True False (fp @ r2 @ r) = (fp @ r2, r)"
        using float_body_digits [OF fp, of "ip \<noteq> []" True False "r2 @ r"] by simp
      then have "float_body (ip \<noteq> []) False False (c # fp @ r2 @ r) = (c # fp @ r2, r)"
        using True cnd by (simp add: accumulate_def)
      then show ?thesis
        unfolding u_def [symmetric] u Cons cs
        using float_body_digits [OF ip, of False False False "c # fp @ r2 @ r"] by simp
    next
      case False
      from L Cons False have m: "ip \<noteq> []" and t: "exponent_part r1"
        by simp_all
      have "float_body True False False (r1 @ r) = (r1, r)"
        using t assms(2) by (rule float_body_exponent)
      then show ?thesis
        unfolding u_def [symmetric] u
        using m float_body_digits [OF ip, of False False False "r1 @ r"] by simp
    qed
  qed
qed

lemma float_literal_not_empty: "float_literal t \<Longrightarrow> t \<noteq> []"
  by (auto simp: float_literal_def strip_sign_def)

lemma extract_float_literal:
  assumes "float_literal t" and "ends_field r"
  shows "extract_float (t @ r) = (t, r)"
proof -
  from assms(1) obtain c cs where t: "t = c # cs"
    by (cases t) (auto dest: float_literal_not_empty)
  show ?thesis
  proof (cases "is_sign c")
    case True
    then have "strip_sign t = cs" by (simp add: strip_sign_def t)
    with float_body_literal [OF assms] True show ?thesis
      by (simp add: extract_float_def t accumulate_def)
  next
    case False
    then have "strip_sign t = t" by (simp add: strip_sign_def t)
    with float_body_literal [OF assms] False show ?thesis
      by (simp add: extract_float_def t)
  qed
qed

subsection \<open>The loop\<close>

lemma words_blank: "dropWhile isspace s = [] \<Longrightarrow> words s = []"
  by (subst words.simps) (simp del: dropWhile_eq_Nil_conv)

lemma words_field:
  "dropWhile isspace s = c # cs \<Longrightarrow>
   words s = takeWhile (\<lambda>x. \<not> isspace x) (c # cs)
               # words (dropWhile (\<lambda>x. \<not> isspace x) (c # cs))"
  by (subst words.simps) simp

lemma scan_stops_early_blank: "dropWhile isspace s = [] \<Longrightarrow> \<not> scan_stops_early conv s"
  by (subst scan_stops_early.simps) (simp del: dropWhile_eq_Nil_conv)

lemma scan_stops_early_field:
  "dropWhile isspace s = c # cs \<Longrightarrow> extract_float (c # cs) = (field, rest) \<Longrightarrow>
   scan_stops_early conv s =
     (if field = [] \<or> conv field = None then rest \<noteq> [] else scan_stops_early conv rest)"
  by (subst scan_stops_early.simps) simp

definition fresh_stream :: "string \<Rightarrow> istringstream" where
  "fresh_stream s = \<lparr>rdbuf = s, eofbit = False, failbit = False\<rparr>"

lemma extract_score_blank:
  "dropWhile isspace s = [] \<Longrightarrow>
   extract_score conv (fresh_stream s) = (None, \<lparr>rdbuf = [], eofbit = True, failbit = True\<rparr>)"
  unfolding extract_score_def fresh_stream_def by (simp del: dropWhile_eq_Nil_conv)

lemma extract_score_field:
  assumes "dropWhile isspace s = c # cs" and "extract_float (c # cs) = (field, rest)"
  shows "extract_score conv (fresh_stream s) =
     (case (if field = [] then None else conv field) of
        None \<Rightarrow> (None, \<lparr>rdbuf = rest, eofbit = (rest = []), failbit = True\<rparr>)
      | Some v \<Rightarrow> (Some v, \<lparr>rdbuf = rest, eofbit = (rest = []), failbit = False\<rparr>))"
  unfolding extract_score_def fresh_stream_def using assms by simp

lemma read_scores_at_eof:
  "read_scores conv \<lparr>rdbuf = b, eofbit = True, failbit = f\<rparr> acc
     = (acc, \<lparr>rdbuf = b, eofbit = True, failbit = True\<rparr>)"
  by (subst read_scores.simps) (simp add: extract_score_def)

lemma read_scores_after:
  "read_scores conv \<lparr>rdbuf = r, eofbit = (r = []), failbit = False\<rparr> acc
     = (if r = [] then (acc, \<lparr>rdbuf = [], eofbit = True, failbit = True\<rparr>)
        else read_scores conv (fresh_stream r) acc)"
  by (simp add: read_scores_at_eof fresh_stream_def)

lemma read_scores_blank:
  "dropWhile isspace s = [] \<Longrightarrow>
   read_scores conv (fresh_stream s) acc
     = (acc, \<lparr>rdbuf = [], eofbit = True, failbit = True\<rparr>)"
  by (subst read_scores.simps) (simp add: extract_score_blank)

lemma read_scores_field:
  assumes "dropWhile isspace s = c # cs" and "extract_float (c # cs) = (field, rest)"
  shows "read_scores conv (fresh_stream s) acc =
     (case (if field = [] then None else conv field) of
        None \<Rightarrow> (acc, \<lparr>rdbuf = rest, eofbit = (rest = []), failbit = True\<rparr>)
      | Some v \<Rightarrow>
          read_scores conv \<lparr>rdbuf = rest, eofbit = (rest = []), failbit = False\<rparr> (acc @ [v]))"
  by (subst read_scores.simps) (simp add: extract_score_field [OF assms] split: option.splits)

lemma read_scores_eofbit:
  "eofbit (snd (read_scores conv (fresh_stream s) acc)) \<longleftrightarrow> \<not> scan_stops_early conv s"
proof (induction conv s arbitrary: acc rule: scan_stops_early.induct)
  case (1 conv s)
  show ?case
  proof (cases "dropWhile isspace s")
    case Nil
    then show ?thesis
      by (simp add: read_scores_blank scan_stops_early_blank)
  next
    case (Cons c cs)
    obtain field rest where f: "extract_float (c # cs) = (field, rest)"
      by (cases "extract_float (c # cs)")
    show ?thesis
    proof (cases "field = [] \<or> conv field = None")
      case True
      then show ?thesis
        by (auto simp: read_scores_field [OF Cons f] scan_stops_early_field [OF Cons f])
    next
      case False
      then obtain v where v: "conv field = Some v" by auto
      have ih: "eofbit (snd (read_scores conv (fresh_stream rest) (acc @ [v])))
                  \<longleftrightarrow> \<not> scan_stops_early conv rest"
        using 1 [OF Cons refl f [symmetric]] False by simp
      have e: "\<not> scan_stops_early conv []"
        by (simp add: scan_stops_early_blank)
      show ?thesis
        using False v ih e
        by (simp add: read_scores_field [OF Cons f] scan_stops_early_field [OF Cons f]
            read_scores_after)
    qed
  qed
qed

lemma word_ends_field:
  "ends_field (dropWhile (\<lambda>x. \<not> isspace x) b)"
proof (cases "dropWhile (\<lambda>x. \<not> isspace x) b")
  case Nil
  then show ?thesis by (simp add: ends_field_def del: dropWhile_eq_Nil_conv)
next
  case (Cons y ys)
  then have "isspace y" by (metis (mono_tags, lifting) hd_dropWhile list.sel(1) list.discI)
  with Cons show ?thesis by (simp add: ends_field_def)
qed

lemma read_scores_words:
  assumes "\<forall>t\<in>set (words s). float_literal t \<and> conv t \<noteq> None"
  shows "fst (read_scores conv (fresh_stream s) acc) = acc @ map (the \<circ> conv) (words s)
         \<and> eofbit (snd (read_scores conv (fresh_stream s) acc))"
  using assms
proof (induction s arbitrary: acc rule: words.induct)
  case (1 s)
  show ?case
  proof (cases "dropWhile isspace s")
    case Nil
    then show ?thesis
      by (simp add: read_scores_blank words_blank)
  next
    case (Cons c cs)
    define t where "t = takeWhile (\<lambda>x. \<not> isspace x) (c # cs)"
    define r where "r = dropWhile (\<lambda>x. \<not> isspace x) (c # cs)"
    have w: "words s = t # words r"
      by (simp add: words_field [OF Cons] t_def r_def)
    with "1.prems" obtain v where lit: "float_literal t" and v: "conv t = Some v"
      and rest: "\<forall>t\<in>set (words r). float_literal t \<and> conv t \<noteq> None"
      by auto
    have "c # cs = t @ r" and "ends_field r"
      using word_ends_field [of "c # cs"] by (simp_all add: t_def r_def)
    then have f: "extract_float (c # cs) = (t, r)"
      using extract_float_literal [OF lit] by simp
    have ne: "t \<noteq> []" using lit by (rule float_literal_not_empty)
    have ih: "fst (read_scores conv (fresh_stream r) (acc @ [v]))
                = (acc @ [v]) @ map (the \<circ> conv) (words r)
              \<and> eofbit (snd (read_scores conv (fresh_stream r) (acc @ [v])))"
      using "1.IH" [OF Cons] rest unfolding r_def by blast
    have e: "words [] = []" by (simp add: words_blank)
    show ?thesis
      using ne v ih e
      by (simp add: read_scores_field [OF Cons f] read_scores_after w)
  qed
qed

lemma ParseConfidences_fresh:
  "ParseConfidences conv s =
     (fst (read_scores conv (fresh_stream s) []),
      if eofbit (snd (read_scores conv (fresh_stream s) [])) then None
      else Some (BadConfidence s))"
  by (simp add: ParseConfidences_def fresh_stream_def split: prod.splits)

lemma ParseConfidences_thrown:
  "snd (ParseConfidences conv s) =
     (if scan_stops_early conv s then Some (BadConfidence s) else None)"
  by (simp add: ParseConfidences_fresh read_scores_eofbit)

lemma ParseConfidences_words:
  assumes "\<forall>t\<in>set (words s). float_literal t \<and> conv t \<noteq> None"
  shows "ParseConfidences conv s = (map (the \<circ> conv) (words s), None)"
  using read_scores_words [OF assms, of "[]"] by (simp add: ParseConfidences_fresh)

lemma ParseConfidences_blank:
  assumes "\<forall>c\<in>set s. isspace c"
  shows "ParseConfidences conv s = ([], None)"
proof -
  from assms have "dropWhile isspace s = []" by simp
  then show ?thesis by (simp add: ParseConfidences_fresh read_scores_blank)
qed

section \<open>Properties of the option store\<close>

subsection \<open>Storing options\<close>

lemma find_description_Some:
  "find_description ds k = Some d \<Longrightarrow> d \<in> set ds \<and> long_name d = k"
  unfolding find_description_def by (induction ds) (auto split: if_splits)

lemma find_description_distinct:
  "distinct (map long_name ds) \<Longrightarrow> d \<in> set ds \<Longrightarrow> find_description ds (long_name d) = Some d"
  unfolding find_description_def by (induction ds) (auto simp: image_iff)

lemma store_options_Cons_Inr:
  assumes "store_options ds ((key, token) # options) vm = Inr vm'"
  obtains d v where "find_description ds key = Some d" and "vm key = None"
    and "parse d token = Some v" and "store_options ds options (vm(key \<mapsto> v)) = Inr vm'"
  using assms by (auto split: option.splits if_splits)

lemma store_options_other:
  "store_options ds opts vm = Inr vm' \<Longrightarrow> k \<notin> fst ` set opts \<Longrightarrow> vm' k = vm k"
proof (induction opts arbitrary: vm)
  case Nil
  then show ?case by simp
next
  case (Cons a opts)
  obtain key token where a: "a = (key, token)" by (cases a)
  from Cons.prems(1) [unfolded a] obtain d v where
    rest: "store_options ds opts (vm(key \<mapsto> v)) = Inr vm'"
    by (rule store_options_Cons_Inr)
  from Cons.prems(2) a have "k \<noteq> key" "k \<notin> fst ` set opts" by auto
  with Cons.IH [OF rest] show ?case by simp
qed

lemma store_options_fresh:
  "store_options ds opts vm = Inr vm' \<Longrightarrow> k \<in> fst ` set opts \<Longrightarrow> vm k = None"
proof (induction opts arbitrary: vm)
  case Nil
  then show ?case by simp
next
  case (Cons a opts)
  obtain key token where a: "a = (key, token)" by (cases a)
  from Cons.prems(1) [unfolded a] obtain d v where kn: "vm key = None" and
    rest: "store_options ds opts (vm(key \<mapsto> v)) = Inr vm'"
    by (rule store_options_Cons_Inr)
  show ?case
  proof (cases "k = key")
    case True
    with kn show ?thesis by simp
  next
    case False
    with Cons.prems(2) a have "k \<in> fst ` set opts" by auto
    from Cons.IH [OF rest this] False show ?thesis by (simp split: if_splits)
  qed
qed

lemma store_options_distinct:
  "store_options ds opts vm = Inr vm' \<Longrightarrow> distinct (map fst opts)"
proof (induction opts arbitrary: vm)
  case Nil
  then show ?case by simp
next
  case (Cons a opts)
  obtain key token where a: "a = (key, token)" by (cases a)
  from Cons.prems(1) [unfolded a] obtain d v where
    rest: "store_options ds opts (vm(key \<mapsto> v)) = Inr vm'"
    by (rule store_options_Cons_Inr)
  have "key \<notin> fst ` set opts"
    using store_options_fresh [OF rest, of key] by auto
  with Cons.IH [OF rest] a show ?case by simp
qed

lemma store_options_value:
  "store_options ds opts vm = Inr vm' \<Longrightarrow> (k, tok) \<in> set opts \<Longrightarrow>
   \<exists>d v. find_description ds k = Some d \<and> parse d tok = Some v \<and> vm' k = Some v"
proof (induction opts arbitrary: vm)
  case Nil
  then show ?case by simp
next
  case (Cons a opts)
  obtain key token where a: "a = (key, token)" by (cases a)
  from Cons.prems(1) [unfolded a] obtain d v where d: "find_description ds key = Some d"
    and v: "parse d token = Some v"
    and rest: "store_options ds opts (vm(key \<mapsto> v)) = Inr vm'"
    by (rule store_options_Cons_Inr)
  show ?case
  proof (cases "(k, tok) = (key, token)")
    case True
    have "key \<notin> fst ` set opts"
      using store_options_fresh [OF rest, of key] by auto
    then have "vm' key = Some v"
      using store_options_other [OF rest, of key] by simp
    with True d v show ?thesis by auto
  next
    case False
    with Cons.prems(2) a have "(k, tok) \<in> set opts" by auto
    with Cons.IH [OF rest] show ?thesis by blast
  qed
qed

subsection \<open>Defaults\<close>

lemma fold_apply_default_other:
  "k \<notin> long_name ` set ds \<Longrightarrow> fold apply_default ds vm k = vm k"
  by (induction ds arbitrary: vm) (auto simp: apply_default_def split: option.splits)

lemma apply_default_Some: "vm k = Some v \<Longrightarrow> apply_default a vm k = Some v"
  by (auto simp: apply_default_def split: option.splits)

lemma fold_apply_default_Some:
  "vm k = Some v \<Longrightarrow> fold apply_default ds vm k = Some v"
  by (induction ds arbitrary: vm) (simp_all add: apply_default_Some)

lemma fold_apply_default_None:
  "distinct (map long_name ds) \<Longrightarrow> d \<in> set ds \<Longrightarrow> vm (long_name d) = None \<Longrightarrow>
   fold apply_default ds vm (long_name d) = default_value d"
proof (induction ds arbitrary: vm)
  case Nil
  then show ?case by simp
next
  case (Cons a ds)
  show ?case
  proof (cases "a = d")
    case True
    with Cons.prems have "long_name d \<notin> long_name ` set ds" by auto
    then have "fold apply_default ds (apply_default d vm) (long_name d)
                 = apply_default d vm (long_name d)"
      by (rule fold_apply_default_other)
    moreover have "apply_default d vm (long_name d) = default_value d"
      using Cons.prems(3) by (simp add: apply_default_def split: option.splits)
    ultimately show ?thesis using True by simp
  next
    case False
    with Cons.prems have d: "d \<in> set ds" and ne: "long_name a \<noteq> long_name d" by auto
    have "apply_default a vm (long_name d) = None"
      using ne Cons.prems(3) by (simp add: apply_default_def split: option.splits)
    then show ?thesis using Cons d by simp
  qed
qed

text \<open>The token a source assigns to a key, and the value a description resolves to.\<close>

definition option_text :: "parsed_options \<Rightarrow> string \<Rightarrow> string option" where
  "option_text opts k = map_option snd (find (\<lambda>(k', tok). k' = k) opts)"

lemma option_text_None: "option_text opts k = None \<longleftrightarrow> k \<notin> fst ` set opts"
  unfolding option_text_def by (induction opts) (auto split: if_splits)

lemma option_text_Some: "option_text opts k = Some tok \<Longrightarrow> (k, tok) \<in> set opts"
  unfolding option_text_def by (induction opts) (auto split: if_splits)

definition resolved_action :: "parsed_options \<Rightarrow> 's option_description \<Rightarrow> ('s \<Rightarrow> 's) option" where
  "resolved_action opts d =
     (case option_text opts (long_name d) of
        Some tok \<Rightarrow> parse d tok
      | None \<Rightarrow> default_value d)"

lemma store_value:
  assumes "store ds opts Map.empty = Inr vm" and "distinct (map long_name ds)"
    and "d \<in> set ds"
  shows "vm (long_name d) = resolved_action opts d"
proof -
  from assms(1) obtain vm0 where vm0: "store_options ds opts Map.empty = Inr vm0"
    and vm: "vm = fold apply_default ds vm0"
    by (auto simp: store_def split: sum.splits)
  show ?thesis
  proof (cases "option_text opts (long_name d)")
    case None
    then have "vm0 (long_name d) = None"
      using store_options_other [OF vm0, of "long_name d"] by (simp add: option_text_None)
    then show ?thesis
      using None fold_apply_default_None [OF assms(2,3)]
      by (simp add: vm resolved_action_def)
  next
    case (Some tok)
    then obtain d' v where d': "find_description ds (long_name d) = Some d'"
      and v: "parse d' tok = Some v" "vm0 (long_name d) = Some v"
      using store_options_value [OF vm0 option_text_Some] by blast
    have "d' = d"
      using d' find_description_distinct [OF assms(2,3)] by simp
    with v Some show ?thesis
      by (simp add: vm fold_apply_default_Some resolved_action_def)
  qed
qed

lemma store_dom:
  assumes "store ds opts Map.empty = Inr vm" and "distinct (map long_name ds)"
    and "find_description ds k = None"
  shows "vm k = None"
proof -
  from assms(1) obtain vm0 where vm0: "store_options ds opts Map.empty = Inr vm0"
    and vm: "vm = fold apply_default ds vm0"
    by (auto simp: store_def split: sum.splits)
  have "k \<notin> fst ` set opts"
  proof
    assume "k \<in> fst ` set opts"
    then obtain tok where "(k, tok) \<in> set opts" by auto
    from store_options_value [OF vm0 this] assms(3) show False by auto
  qed
  then have "vm0 k = None" using store_options_other [OF vm0] by simp
  moreover have "k \<notin> long_name ` set ds"
    using assms(3) unfolding find_description_def by (auto simp: find_None_iff)
  ultimately show ?thesis by (simp add: vm fold_apply_default_other)
qed

definition assign_from :: "parsed_options \<Rightarrow> 's option_description \<Rightarrow> 's \<Rightarrow> 's" where
  "assign_from opts d st =
     (case resolved_action opts d of None \<Rightarrow> st | Some assign \<Rightarrow> assign st)"

lemma notify_store:
  assumes "store ds opts Map.empty = Inr vm" and "distinct (map long_name ds)"
  shows "notify ds vm st = fold (assign_from opts) ds st"
proof -
  have "\<And>d. d \<in> set ds \<Longrightarrow> notify_one vm d = assign_from opts d"
    by (rule ext) (simp add: notify_one_def assign_from_def store_value [OF assms])
  then have "fold (notify_one vm) ds st = fold (assign_from opts) ds st"
    by (intro fold_cong refl)
  then show ?thesis by (simp add: notify_def)
qed

subsection \<open>CheckOnce\<close>

lemma CheckOnce_None: "CheckOnce vm keys = None \<longleftrightarrow> (\<forall>k\<in>set keys. vm k \<noteq> None)"
  by (induction keys) (auto simp: count_def)

lemma CheckOnce_first:
  "K \<in> set keys \<Longrightarrow> vm K = None \<Longrightarrow> \<forall>k\<in>set (takeWhile (\<lambda>k. k \<noteq> K) keys). vm k \<noteq> None \<Longrightarrow>
   CheckOnce vm keys = Some (ArgumentCountException K 1 0)"
proof (induction keys)
  case Nil
  then show ?case by simp
next
  case (Cons a keys)
  show ?case
  proof (cases "a = K")
    case True
    with Cons.prems(2) show ?thesis by (simp add: count_def)
  next
    case False
    with Cons.prems have "K \<in> set keys" and "vm a \<noteq> None"
      and "\<forall>k\<in>set (takeWhile (\<lambda>k. k \<noteq> K) keys). vm k \<noteq> None"
      by auto
    with Cons.IH Cons.prems(2) show ?thesis by (auto simp: count_def)
  qed
qed

lemma CheckOnce_Some:
  "CheckOnce vm keys = Some e \<Longrightarrow> \<exists>k\<in>set keys. vm k = None \<and> e = ArgumentCountException k 1 0"
  by (induction keys) (auto simp: count_def split: if_splits)

subsection \<open>The options of a request, resolved\<close>

definition resolved :: "parsed_options \<Rightarrow> string \<Rightarrow> (string \<Rightarrow> 'a option) \<Rightarrow> 'a option \<Rightarrow> 'a option" where
  "resolved opts k cast dflt = (case option_text opts k of Some tok \<Rightarrow> cast tok | None \<Rightarrow> dflt)"

lemma resolved_action_typed:
  "resolved_action opts (typed_value k cast assign dflt)
     = map_option assign (resolved opts k cast dflt)"
  by (simp add: resolved_action_def typed_value_def resolved_def split: option.splits)

lemma assign_from_typed:
  "resolved_action opts (typed_value k cast assign dflt) \<noteq> None \<Longrightarrow>
   assign_from opts (typed_value k cast assign dflt) st
     = assign (the (resolved opts k cast dflt)) st"
  by (auto simp: assign_from_def resolved_action_typed)

lemma store_present:
  assumes "store ds opts Map.empty = Inr vm" and "k \<in> fst ` set opts"
  shows "vm k \<noteq> None"
proof -
  from assms(1) obtain vm0 where vm0: "store_options ds opts Map.empty = Inr vm0"
    and vm: "vm = fold apply_default ds vm0"
    by (auto simp: store_def split: sum.splits)
  from assms(2) obtain tok where "(k, tok) \<in> set opts" by auto
  from store_options_value [OF vm0 this] obtain v where "vm0 k = Some v" by blast
  then show ?thesis by (simp add: vm fold_apply_default_Some)
qed

lemma desc_distinct: "distinct (map long_name (desc cv))"
  by (simp add: desc_def typed_value_def)

lemma desc_mandatory_or_default:
  "\<forall>d\<in>set (desc cv). long_name d \<in> set mandatory_options \<or> default_value d \<noteq> None"
  by (simp add: desc_def typed_value_def mandatory_options_def)

lemma all_resolved:
  assumes st: "store (desc cv) r Map.empty = Inr vm"
    and ck: "CheckOnce vm mandatory_options = None"
  shows "\<forall>d\<in>set (desc cv). resolved_action r d \<noteq> None"
proof
  fix d assume d: "d \<in> set (desc cv)"
  have v: "vm (long_name d) = resolved_action r d"
    using st desc_distinct d by (rule store_value)
  from desc_mandatory_or_default d
  have "long_name d \<in> set mandatory_options \<or> default_value d \<noteq> None" by blast
  then show "resolved_action r d \<noteq> None"
  proof
    assume "long_name d \<in> set mandatory_options"
    with ck have "vm (long_name d) \<noteq> None" by (simp add: CheckOnce_None)
    with v show ?thesis by simp
  next
    assume dv: "default_value d \<noteq> None"
    show ?thesis
    proof (cases "long_name d \<in> fst ` set r")
      case True
      then have "vm (long_name d) \<noteq> None" by (rule store_present [OF st])
      with v show ?thesis by simp
    next
      case False
      then have "option_text r (long_name d) = None" by (simp add: option_text_None)
      with dv show ?thesis by (simp add: resolved_action_def)
    qed
  qed
qed

definition resolved_parser :: "conversions \<Rightarrow> parsed_options \<Rightarrow> input_Config \<Rightarrow> QueryConfigParser" where
  "resolved_parser cv r t =
     \<lparr>confidence_string = the (resolved r ''input.confidence'' Some None),
      config =
        \<lparr>text' = t\<lparr>pick_best := the (resolved r ''align.pick_best'' validate_bool (Some False)),
                   transitive := the (resolved r ''align.transitive'' validate_bool (Some False))\<rparr>,
         decoder =
           \<lparr>scorer_lm = the (resolved r ''score.lm'' (lexical_cast_score cv) None),
            scorer_alignment = the (resolved r ''score.alignment'' (lexical_cast_score cv) None),
            scorer_ngram = the (resolved r ''score.ngram'' (lexical_cast_score cv) None),
            scorer_ngram_base =
              the (resolved r ''score.ngram_base'' (lexical_cast_score cv)
                     (Some (ngram_base_default cv))),
            scorer_overlap = the (resolved r ''score.overlap'' (lexical_cast_score cv) None),
            scorer_fuzz_ratio =
              the (resolved r ''score.fuzz.ratio'' (lexical_cast_score cv) (Some 0.0)),
            internal_beam_size =
              the (resolved r ''beam_size'' (lexical_cast_unsigned cv) (Some 500)),
            length_normalize = the (resolved r ''length_normalize'' validate_bool (Some True)),
            end_beam_size = the (resolved r ''output.nbest'' (lexical_cast_unsigned cv) (Some 1)),
            coverage_old_horizon =
              the (resolved r ''horizon.radius'' (lexical_cast_unsigned cv) (Some 5)),
            coverage_use_new = the (resolved r ''horizon.new'' validate_bool (Some False)),
            coverage_stay_threshold =
              the (resolved r ''horizon.threshold'' (lexical_cast_score cv) (Some 0.8))\<rparr>,
         output_oracle_prefix = the (resolved r ''output.oracle_prefix'' Some (Some [])),
         output_one_best = the (resolved r ''output.one_best'' Some None),
         input_matched = the (resolved r ''input.matched_file'' Some None)\<rparr>\<rparr>"

lemma fold_assign_desc:
  assumes "\<forall>d\<in>set (desc cv). resolved_action r d \<noteq> None"
  shows "fold (assign_from r) (desc cv) p = resolved_parser cv r (text' (config p))"
proof -
  obtain cs c where p: "p = \<lparr>confidence_string = cs, config = c\<rparr>" by (cases p) auto
  obtain t d op ob im where c: "c = \<lparr>text' = t, decoder = d, output_oracle_prefix = op,
      output_one_best = ob, input_matched = im\<rparr>" by (cases c) auto
  obtain a1 a2 a3 a4 a5 a6 a7 a8 a9 a10 a11 a12 where d: "d = \<lparr>scorer_lm = a1,
      scorer_alignment = a2, scorer_ngram = a3, scorer_ngram_base = a4, scorer_overlap = a5,
      scorer_fuzz_ratio = a6, internal_beam_size = a7, length_normalize = a8,
      end_beam_size = a9, coverage_old_horizon = a10, coverage_use_new = a11,
      coverage_stay_threshold = a12\<rparr>" by (cases d) auto
  from assms show ?thesis
    unfolding desc_def p c d
    by (simp add: assign_from_typed resolved_parser_def in_config_def in_decoder_def in_text_def)
qed

lemma notify_success:
  assumes st: "store (desc cv) r Map.empty = Inr vm"
    and ck: "CheckOnce vm mandatory_options = None"
  shows "notify (desc cv) vm p = resolved_parser cv r (text' (config p))"
  using all_resolved [OF st ck]
  by (simp add: notify_store [OF st desc_distinct] fold_assign_desc)

subsection \<open>What Parse returns\<close>

lemma parse_registered_Inr: "parse_registered ds r = Inr opts \<Longrightarrow> opts = r"
  by (auto simp: parse_registered_def split: option.splits)

definition resolved_config :: "conversions \<Rightarrow> parsed_options \<Rightarrow> QueryConfigParser" where
  "resolved_config cv r =
     resolved_parser cv r
       \<lparr>confidences =
          fst (ParseConfidences (convert_field cv) (the (resolved r ''input.confidence'' Some None))),
        horizon_radius = the (resolved r ''horizon.radius'' (lexical_cast_unsigned cv) (Some 5)),
        pick_best = False, transitive = False\<rparr>"

definition Parse_exception :: "conversions \<Rightarrow> parsed_options \<Rightarrow> exception option" where
  "Parse_exception cv r =
     (case parse_registered (desc cv) r of
        Inl e \<Rightarrow> Some (std_exception e)
      | Inr options \<Rightarrow>
          (case store (desc cv) options Map.empty of
             Inl e \<Rightarrow> Some (std_exception e)
           | Inr vm \<Rightarrow>
               (case CheckOnce vm mandatory_options of
                  Some e \<Rightarrow> Some (ArgumentParseError e)
                | None \<Rightarrow>
                    map_option ArgumentParseError
                      (snd (ParseConfidences (convert_field cv)
                              (the (resolved r ''input.confidence'' Some None)))))))"

lemma Parse_fst: "fst (Parse cv r p) = Parse_exception cv r"
proof (cases "parse_registered (desc cv) r")
  case (Inl e)
  then show ?thesis by (simp add: Parse_def Parse_exception_def)
next
  case (Inr opts)
  then have opts: "opts = r" by (rule parse_registered_Inr)
  show ?thesis
  proof (cases "store (desc cv) r Map.empty")
    case (Inl e)
    with Inr opts show ?thesis by (simp add: Parse_def Parse_exception_def)
  next
    case st: (Inr vm)
    show ?thesis
    proof (cases "CheckOnce vm mandatory_options")
      case (Some e)
      with Inr opts st show ?thesis by (simp add: Parse_def Parse_exception_def)
    next
      case None
      have n: "notify (desc cv) vm p = resolved_parser cv r (text' (config p))"
        using st None by (rule notify_success)
      have cs: "confidence_string (resolved_parser cv r (text' (config p)))
                  = the (resolved r ''input.confidence'' Some None)"
        by (simp add: resolved_parser_def)
      show ?thesis
        using Inr opts st None
        by (simp add: Parse_def Parse_exception_def n cs Let_def split: prod.splits option.splits)
    qed
  qed
qed

lemma Parse_None:
  assumes "Parse cv r p = (None, p')"
  shows "p' = resolved_config cv r"
proof -
  from assms obtain vm where st: "store (desc cv) r Map.empty = Inr vm"
    and ck: "CheckOnce vm mandatory_options = None"
    by (auto simp: Parse_def Let_def split: sum.splits option.splits prod.splits
        dest: parse_registered_Inr)
  have pr: "parse_registered (desc cv) r = Inr r"
    using assms by (auto simp: Parse_def split: sum.splits dest: parse_registered_Inr)
  have n: "notify (desc cv) vm p = resolved_parser cv r (text' (config p))"
    using st ck by (rule notify_success)
  show ?thesis
    using assms pr st ck
    by (auto simp: Parse_def Let_def n resolved_config_def resolved_parser_def in_text_def
        in_config_def split: prod.splits option.splits)
qed

lemma Parse_snd_None:
  "fst (Parse cv r p) = None \<Longrightarrow> snd (Parse cv r p) = resolved_config cv r"
  using Parse_None [of cv r p "snd (Parse cv r p)"] by (metis prod.collapse)

lemma serve_connection_fst:
  "fst (serve_connection env cv r p) = fst (serve_connection env cv r q)"
proof (cases "Parse_exception cv r")
  case None
  then have "snd (Parse cv r p) = resolved_config cv r" "snd (Parse cv r q) = resolved_config cv r"
    by (simp_all add: Parse_snd_None Parse_fst)
  moreover have "fst (Parse cv r p) = None" "fst (Parse cv r q) = None"
    using None by (simp_all add: Parse_fst)
  ultimately show ?thesis
    by (auto simp: serve_connection_def split: prod.splits option.splits exception.splits)
next
  case (Some e)
  then have "fst (Parse cv r p) = Some e" "fst (Parse cv r q) = Some e"
    by (simp_all add: Parse_fst)
  then show ?thesis
    by (auto simp: serve_connection_def split: prod.splits option.splits exception.splits)
qed

lemma accept_loop_map:
  "accept_loop env cv p streams = map (\<lambda>s. fst (serve_connection env cv s q)) streams"
proof (induction streams arbitrary: p)
  case Nil
  then show ?case by simp
next
  case (Cons s streams)
  show ?case
    using Cons.IH serve_connection_fst [of env cv s p q]
    by (simp split: prod.splits) (metis fst_conv)
qed

section \<open>A request, a parser and collaborators to evaluate on\<close>

text \<open>
  The request of the scenario in the specification (the seven mandatory keys and nothing
  else), a parser whose members are all zero or empty, and collaborators that make two
  inputs and return each input as its own best hypothesis.
\<close>

definition scenario_request :: parsed_options where
  "scenario_request =
     [(''score.lm'', ''1.0''), (''score.alignment'', ''1.0''), (''score.ngram'', ''1.0''),
      (''score.overlap'', ''1.0''), (''output.one_best'', ''/tmp/out.txt''),
      (''input.matched_file'', ''/tmp/in.txt''), (''input.confidence'', ''0.9 0.8 0.95'')]"

definition blank_parser :: QueryConfigParser where
  "blank_parser =
     \<lparr>confidence_string = [],
      config =
        \<lparr>text' = \<lparr>confidences = [], horizon_radius = 0, pick_best = False, transitive = False\<rparr>,
         decoder =
           \<lparr>scorer_lm = 0, scorer_alignment = 0, scorer_ngram = 0, scorer_ngram_base = 0,
            scorer_overlap = 0, scorer_fuzz_ratio = 0, internal_beam_size = 0,
            length_normalize = False, end_beam_size = 0, coverage_old_horizon = 0,
            coverage_use_new = False, coverage_stay_threshold = 0\<rparr>,
         output_oracle_prefix = [], output_one_best = [], input_matched = []\<rparr>\<rparr>"

definition two_inputs :: "(string, string) collaborators" where
  "two_inputs = \<lparr>Make = (\<lambda>cfg file. [''first'', ''second'']), Run = (\<lambda>cfg inp. Inr [inp])\<rparr>"

definition scenario_config :: QueryConfig where
  "scenario_config =
     \<lparr>text' = \<lparr>confidences = [9 / 10, 4 / 5, 19 / 20], horizon_radius = 5,
               pick_best = False, transitive = False\<rparr>,
      decoder =
        \<lparr>scorer_lm = 1, scorer_alignment = 1, scorer_ngram = 1, scorer_ngram_base = 1 / 3,
         scorer_overlap = 1, scorer_fuzz_ratio = 0, internal_beam_size = 500,
         length_normalize = True, end_beam_size = 1, coverage_old_horizon = 5,
         coverage_use_new = False, coverage_stay_threshold = 0.8\<rparr>,
      output_oracle_prefix = [], output_one_best = ''/tmp/out.txt'',
      input_matched = ''/tmp/in.txt''\<rparr>"

lemma plain_decimal_1: "plain_decimal ''1.0'' = Some 1"
  by (simp add: plain_decimal_def float_literal_def strip_sign_def is_sign_def isdigit_def
      decimal_value_def digit_value_def)

lemma scenario_confidences:
  "ParseConfidences plain_decimal ''0.9 0.8 0.95'' = ([9 / 10, 4 / 5, 19 / 20], None)"
proof -
  have w: "words ''0.9 0.8 0.95'' = [''0.9'', ''0.8'', ''0.95'']"
    by (simp add: words.simps isspace_def)
  have l: "float_literal ''0.9''" "float_literal ''0.8''" "float_literal ''0.95''"
    by (simp_all add: float_literal_def strip_sign_def is_sign_def isdigit_def)
  have v: "plain_decimal ''0.9'' = Some (9 / 10)" "plain_decimal ''0.8'' = Some (4 / 5)"
    "plain_decimal ''0.95'' = Some (19 / 20)"
    by (simp_all add: plain_decimal_def l strip_sign_def is_sign_def isdigit_def
        decimal_value_def digit_value_def)
  have "\<forall>t\<in>set (words ''0.9 0.8 0.95''). float_literal t \<and> plain_decimal t \<noteq> None"
    unfolding w using l v by (simp del: not_None_eq)
  then have "ParseConfidences plain_decimal ''0.9 0.8 0.95''
          = (map (the \<circ> plain_decimal) (words ''0.9 0.8 0.95''), None)"
    by (rule ParseConfidences_words)
  then show ?thesis by (simp add: w v)
qed

lemma scenario_resolved:
  "resolved scenario_request ''input.confidence'' Some None = Some ''0.9 0.8 0.95''"
  by (simp add: resolved_def option_text_def scenario_request_def)

lemma scenario_exception: "Parse_exception plain_conversions scenario_request = None"
proof -
  have "parse_registered (desc plain_conversions) scenario_request = Inr scenario_request"
    by (simp add: parse_registered_def scenario_request_def desc_def find_description_def
        typed_value_def)
  moreover have "\<exists>vm. store (desc plain_conversions) scenario_request Map.empty = Inr vm
      \<and> CheckOnce vm mandatory_options = None"
    by (simp add: store_def scenario_request_def desc_def find_description_def
        typed_value_def plain_conversions_def plain_decimal_1 mandatory_options_def count_def
        apply_default_def)
  ultimately show ?thesis
    by (auto simp: Parse_exception_def scenario_resolved scenario_confidences
        plain_conversions_def)
qed

lemma scenario_resolved_config:
  "config (resolved_config plain_conversions scenario_request) = scenario_config"
  by (simp add: resolved_config_def resolved_parser_def scenario_config_def scenario_resolved
      plain_conversions_def scenario_confidences)
    (simp add: resolved_def option_text_def scenario_request_def plain_decimal_1)

lemma scenario_Parse:
  "Parse plain_conversions scenario_request p
     = (None, \<lparr>confidence_string = ''0.9 0.8 0.95'', config = scenario_config\<rparr>)"
proof -
  have "fst (Parse plain_conversions scenario_request p) = None"
    by (simp add: Parse_fst scenario_exception)
  moreover from this have "snd (Parse plain_conversions scenario_request p)
      = resolved_config plain_conversions scenario_request"
    by (rule Parse_snd_None)
  moreover have "confidence_string (resolved_config plain_conversions scenario_request)
      = ''0.9 0.8 0.95''"
    by (simp add: resolved_config_def resolved_parser_def scenario_resolved)
  ultimately show ?thesis
    using scenario_resolved_config
    by (cases "Parse plain_conversions scenario_request p")
      (auto intro: QueryConfigParser.equality)
qed

subsection \<open>Decoding writes only where the request says\<close>

lemma option_text_distinct:
  "distinct (map fst opts) \<Longrightarrow> (k, tok) \<in> set opts \<Longrightarrow> option_text opts k = Some tok"
  unfolding option_text_def by (induction opts) (auto simp: image_iff)

lemma store_distinct:
  "store ds opts Map.empty = Inr vm \<Longrightarrow> distinct (map fst opts)"
  by (auto simp: store_def split: sum.splits dest: store_options_distinct)

lemma Parse_exception_None:
  assumes "Parse_exception cv r = None"
  obtains vm where "store (desc cv) r Map.empty = Inr vm"
    and "CheckOnce vm mandatory_options = None"
  using assms
  by (auto simp: Parse_exception_def split: sum.splits option.splits
      dest: parse_registered_Inr)

fun names_output :: "QueryConfig \<Rightarrow> ('inp, 'hyp) file_effect \<Rightarrow> bool" where
  "names_output cfg (Open_one_best f) = (f = output_one_best cfg)"
| "names_output cfg (Top_Write f nbest inp) = (f = output_one_best cfg)"
| "names_output cfg (Oracle_Write f nbest inp) = (f = output_oracle_prefix cfg \<and> f \<noteq> [])"

lemma decode_inputs_names_output:
  "list_all (names_output cfg) out \<Longrightarrow>
   list_all (names_output cfg) (fst (decode_inputs env cfg inputs out))"
  by (induction inputs arbitrary: out) (auto split: sum.splits)

lemma RunDecoder_names_output: "list_all (names_output cfg) (fst (RunDecoder env cfg))"
  by (simp add: RunDecoder_def decode_inputs_names_output)

section \<open>The claims\<close>

subsection \<open>Claims about the confidence parser\<close>

text \<open>
  What the parser does where the words of the string all convert, and where the scan
  stops with characters left behind a field that is empty or does not convert: there
  it returns the converted words in order, here it throws \<open>BadConfidence\<close> with the raw
  string.
\<close>

lemma ParseConfidences_sequence:
  "((\<forall>t\<in>set (words s). float_literal t \<and> conv t \<noteq> None)
      \<longrightarrow> ParseConfidences conv s = (map (the \<circ> conv) (words s), None))
   \<and> (scan_stops_early conv s
      \<longrightarrow> ParseConfidences conv s
            = (fst (ParseConfidences conv s), Some (BadConfidence s)))"
proof (intro conjI impI)
  assume "\<forall>t\<in>set (words s). float_literal t \<and> conv t \<noteq> None"
  then show "ParseConfidences conv s = (map (the \<circ> conv) (words s), None)"
    by (rule ParseConfidences_words)
next
  assume "scan_stops_early conv s"
  then have "snd (ParseConfidences conv s) = Some (BadConfidence s)"
    by (simp add: ParseConfidences_thrown)
  then show "ParseConfidences conv s = (fst (ParseConfidences conv s), Some (BadConfidence s))"
    by (metis prod.collapse)
qed

lemma ParseConfidences_sequence_example:
  "ParseConfidences plain_decimal ''0.9 0.8 0.95'' = ([9 / 10, 4 / 5, 19 / 20], None)
   \<and> ParseConfidences plain_decimal ''0.1 0.2 x''
       = (fst (ParseConfidences plain_decimal ''0.1 0.2 x''), Some (BadConfidence ''0.1 0.2 x''))"
proof -
  have w: "words ''0.9 0.8 0.95'' = [''0.9'', ''0.8'', ''0.95'']"
    by (simp add: words.simps isspace_def)
  have l: "float_literal ''0.9''" "float_literal ''0.8''" "float_literal ''0.95''"
    by (simp_all add: float_literal_def strip_sign_def is_sign_def isdigit_def)
  have v: "plain_decimal ''0.9'' = Some (9 / 10)" "plain_decimal ''0.8'' = Some (4 / 5)"
    "plain_decimal ''0.95'' = Some (19 / 20)"
    by (simp_all add: plain_decimal_def l strip_sign_def is_sign_def isdigit_def
        decimal_value_def digit_value_def)
  have vn: "plain_decimal ''0.9'' \<noteq> None" "plain_decimal ''0.8'' \<noteq> None"
    "plain_decimal ''0.95'' \<noteq> None"
    unfolding v by blast+
  have h: "\<forall>t\<in>set (words ''0.9 0.8 0.95''). float_literal t \<and> plain_decimal t \<noteq> None"
    unfolding w using l vn by (simp del: not_None_eq)
  have e: "scan_stops_early plain_decimal ''0.1 0.2 x''"
    by (simp add: scan_stops_early.simps extract_float_def accumulate_def isspace_def
        plain_decimal_def float_literal_def strip_sign_def is_sign_def isdigit_def)
  have "ParseConfidences plain_decimal ''0.9 0.8 0.95''
          = (map (the \<circ> plain_decimal) (words ''0.9 0.8 0.95''), None)"
    using ParseConfidences_sequence [of "''0.9 0.8 0.95''" plain_decimal] h by (rule conjunct1 [THEN mp])
  then have 1: "ParseConfidences plain_decimal ''0.9 0.8 0.95'' = ([9 / 10, 4 / 5, 19 / 20], None)"
    by (simp add: w v)
  have 2: "ParseConfidences plain_decimal ''0.1 0.2 x''
       = (fst (ParseConfidences plain_decimal ''0.1 0.2 x''), Some (BadConfidence ''0.1 0.2 x''))"
    using ParseConfidences_sequence [of "''0.1 0.2 x''" plain_decimal] e by (rule conjunct2 [THEN mp])
  from 1 2 show ?thesis by (rule conjI)
qed

lemma plain_decimal_tenths:
  "plain_decimal ''0.1'' = Some (1 / 10)" "plain_decimal ''0.2'' = Some (1 / 5)"
  by (simp_all add: plain_decimal_def float_literal_def strip_sign_def is_sign_def isdigit_def
      decimal_value_def digit_value_def)


text \<open>
  Claim C2 asks that a string in which some token fails numeric conversion is rejected
  with \<open>BadConfidence\<close>. The test after the loop is \<open>!parser.eof()\<close> (line 199), and a
  field that does not convert but runs to the end of the string sets \<open>eofbit\<close> together
  with \<open>failbit\<close>. So on \<open>0.1 0.2 -\<close>, whose last word \<open>-\<close> is no number, nothing is
  thrown and the two numbers before it are returned, while \<open>0.1 0.2 x\<close> is rejected.
\<close>

theorem trailing_sign_accepted:
  "ParseConfidences plain_decimal ''0.1 0.2 -'' = ([1 / 10, 1 / 5], None)
   \<and> words ''0.1 0.2 -'' = [''0.1'', ''0.2'', ''-'']
   \<and> plain_decimal ''-'' = None
   \<and> snd (ParseConfidences plain_decimal ''0.1 0.2 x'') = Some (BadConfidence ''0.1 0.2 x'')"
proof -
  have m: "plain_decimal ''-'' = None"
    by (simp add: plain_decimal_def float_literal_def strip_sign_def is_sign_def isdigit_def)
  have 1: "ParseConfidences plain_decimal ''0.1 0.2 -'' = ([1 / 10, 1 / 5], None)"
    by (simp add: ParseConfidences_def read_scores.simps extract_score_def extract_float_def
        accumulate_def isspace_def is_sign_def isdigit_def plain_decimal_tenths m)
  have 2: "words ''0.1 0.2 -'' = [''0.1'', ''0.2'', ''-'']"
    by (simp add: words.simps isspace_def)
  have "scan_stops_early plain_decimal ''0.1 0.2 x''"
    by (simp add: scan_stops_early.simps extract_float_def accumulate_def isspace_def
        is_sign_def isdigit_def plain_decimal_tenths)
  then have 3: "snd (ParseConfidences plain_decimal ''0.1 0.2 x'') = Some (BadConfidence ''0.1 0.2 x'')"
    by (simp add: ParseConfidences_thrown)
  from 1 2 m 3 show ?thesis by simp
qed

text \<open>
  Claim C10. On a string that is empty or holds white space only, \<open>ParseConfidences\<close>
  returns the empty vector and throws nothing. It throws exactly when the scan stops
  before the end of the string, and what it throws is \<open>BadConfidence\<close> with the raw
  string. (A last field that runs to the end of the string and does not convert, as in
  \<open>0.1 -\<close>, sets \<open>eofbit\<close>: nothing is thrown.)
\<close>

theorem ParseConfidences_raises_iff:
  "((\<forall>c\<in>set s. isspace c) \<longrightarrow> ParseConfidences conv s = ([], None))
   \<and> (snd (ParseConfidences conv s) \<noteq> None \<longleftrightarrow> scan_stops_early conv s)
   \<and> (snd (ParseConfidences conv s) = None
      \<or> snd (ParseConfidences conv s) = Some (BadConfidence s))"
  by (simp add: ParseConfidences_thrown ParseConfidences_blank)

theorem ParseConfidences_raises_iff_witness:
  "ParseConfidences plain_decimal [CHR '' '', CHR 0x09, CHR '' ''] = ([], None)
   \<and> snd (ParseConfidences plain_decimal ''0.9 abc'') = Some (BadConfidence ''0.9 abc'')
   \<and> snd (ParseConfidences plain_decimal ''0.1 -'') = None"
proof -
  have b: "\<forall>c\<in>set [CHR '' '', CHR 0x09, CHR '' '']. isspace c"
    by (simp add: isspace_def)
  have e: "scan_stops_early plain_decimal ''0.9 abc''"
    by (simp add: scan_stops_early.simps extract_float_def accumulate_def isspace_def
        plain_decimal_def float_literal_def strip_sign_def is_sign_def isdigit_def
        decimal_value_def digit_value_def)
  have n: "\<not> scan_stops_early plain_decimal ''0.1 -''"
    by (simp add: scan_stops_early.simps extract_float_def accumulate_def isspace_def
        plain_decimal_def float_literal_def strip_sign_def is_sign_def isdigit_def
        decimal_value_def digit_value_def)
  have 1: "ParseConfidences plain_decimal [CHR '' '', CHR 0x09, CHR '' ''] = ([], None)"
    using ParseConfidences_raises_iff [of "[CHR '' '', CHR 0x09, CHR '' '']" plain_decimal] b
    by (rule conjunct1 [THEN mp])
  have 2: "snd (ParseConfidences plain_decimal ''0.9 abc'') = Some (BadConfidence ''0.9 abc'')"
    using ParseConfidences_raises_iff [of "''0.9 abc''" plain_decimal] e by auto
  have 3: "snd (ParseConfidences plain_decimal ''0.1 -'') = None"
    using ParseConfidences_raises_iff [of "''0.1 -''" plain_decimal] n by auto
  from 1 2 3 show ?thesis by blast
qed

subsection \<open>Claims about the resolved configuration\<close>

text \<open>
  Claim C5. After a \<open>Parse\<close> that throws nothing, the horizon radius of the input
  configuration (\<open>text.horizon_radius\<close>) equals the one of the decoder configuration
  (\<open>decoder.coverage.old_horizon\<close>), whether the key was given or defaulted. (Both
  fields are natural numbers in the model; their declarations are not in the sources.)
\<close>

theorem horizon_radius_copied:
  "fst (Parse cv r p) = None \<longrightarrow>
   horizon_radius (text' (config (snd (Parse cv r p))))
     = coverage_old_horizon (decoder (config (snd (Parse cv r p))))"
  by (auto simp: Parse_snd_None resolved_config_def resolved_parser_def)

theorem horizon_radius_copied_witness:
  "fst (Parse plain_conversions scenario_request blank_parser) = None
   \<and> horizon_radius (text' (config (snd (Parse plain_conversions scenario_request blank_parser)))) = 5
   \<and> coverage_old_horizon
        (decoder (config (snd (Parse plain_conversions scenario_request blank_parser)))) = 5
   \<and> fst (Parse plain_conversions ((''horizon.radius'', ''7'') # scenario_request) blank_parser)
       = None
   \<and> horizon_radius (text' (config (snd
        (Parse plain_conversions ((''horizon.radius'', ''7'') # scenario_request) blank_parser)))) = 7
   \<and> coverage_old_horizon (decoder (config (snd
        (Parse plain_conversions ((''horizon.radius'', ''7'') # scenario_request) blank_parser)))) = 7"
proof -
  let ?p = "Parse plain_conversions scenario_request blank_parser"
  let ?q = "Parse plain_conversions ((''horizon.radius'', ''7'') # scenario_request) blank_parser"
  have 1: "fst ?p = None" by (simp add: scenario_Parse)
  have 2: "coverage_old_horizon (decoder (config (snd ?p))) = 5"
    by (simp add: scenario_Parse scenario_config_def)
  have 3: "horizon_radius (text' (config (snd ?p))) = 5"
    using horizon_radius_copied [of plain_conversions scenario_request blank_parser] 1 2
    by simp
  have u: "plain_unsigned ''7'' = Some 7"
    by (simp add: plain_unsigned_def digits1_def isdigit_def decimal_value_def digit_value_def)
  have "parse_registered (desc plain_conversions) ((''horizon.radius'', ''7'') # scenario_request)
      = Inr ((''horizon.radius'', ''7'') # scenario_request)"
    by (simp add: parse_registered_def scenario_request_def desc_def find_description_def
        typed_value_def)
  moreover have "\<exists>vm. store (desc plain_conversions)
        ((''horizon.radius'', ''7'') # scenario_request) Map.empty = Inr vm
      \<and> CheckOnce vm mandatory_options = None"
    by (simp add: store_def scenario_request_def desc_def find_description_def
        typed_value_def plain_conversions_def plain_decimal_1 u mandatory_options_def count_def
        apply_default_def)
  moreover have "resolved ((''horizon.radius'', ''7'') # scenario_request) ''input.confidence''
      Some None = Some ''0.9 0.8 0.95''"
    by (simp add: resolved_def option_text_def scenario_request_def)
  ultimately have "Parse_exception plain_conversions
      ((''horizon.radius'', ''7'') # scenario_request) = None"
    by (auto simp: Parse_exception_def scenario_confidences plain_conversions_def)
  then have 4: "fst ?q = None" by (simp add: Parse_fst)
  then have "snd ?q
      = resolved_config plain_conversions ((''horizon.radius'', ''7'') # scenario_request)"
    by (rule Parse_snd_None)
  then have 5: "coverage_old_horizon (decoder (config (snd ?q))) = 7"
    by (simp add: resolved_config_def resolved_parser_def resolved_def option_text_def
        plain_conversions_def u)
  have 6: "horizon_radius (text' (config (snd ?q))) = 7"
    using horizon_radius_copied [of plain_conversions
        "(''horizon.radius'', ''7'') # scenario_request" blank_parser] 4 5
    by simp
  from 1 2 3 4 5 6 show ?thesis by blast
qed

subsection \<open>Claims about the accept loop\<close>

definition beam_only_request :: parsed_options where
  "beam_only_request = [(''beam_size'', ''7'')]"

lemma plain_unsigned_7: "plain_unsigned ''7'' = Some 7"
  by (simp add: plain_unsigned_def digits1_def isdigit_def decimal_value_def digit_value_def)

lemma beam_only_Parse:
  "fst (Parse plain_conversions beam_only_request blank_parser)
     = Some (ArgumentParseError (ArgumentCountException ''score.lm'' 1 0))
   \<and> internal_beam_size (decoder (config (snd (Parse plain_conversions beam_only_request blank_parser)))) = 7"
proof -
  have r: "parse_registered (desc plain_conversions) beam_only_request = Inr beam_only_request"
    by (simp add: parse_registered_def beam_only_request_def desc_def find_description_def
        typed_value_def)
  obtain vm where st: "store (desc plain_conversions) beam_only_request Map.empty = Inr vm"
    by (simp add: store_def beam_only_request_def desc_def find_description_def
        typed_value_def plain_conversions_def plain_unsigned_7)
  have v: "\<And>d. d \<in> set (desc plain_conversions) \<Longrightarrow> vm (long_name d) = resolved_action beam_only_request d"
    using st desc_distinct by (rule store_value)
  have ck: "CheckOnce vm mandatory_options = Some (ArgumentCountException ''score.lm'' 1 0)"
    using v [of "hd (desc plain_conversions)"]
    by (simp add: mandatory_options_def count_def desc_def typed_value_def resolved_action_def
        option_text_def beam_only_request_def)
  have n: "internal_beam_size (decoder (config (notify (desc plain_conversions) vm blank_parser))) = 7"
    unfolding notify_store [OF st desc_distinct]
    by (simp add: desc_def assign_from_def resolved_action_def typed_value_def option_text_def
        beam_only_request_def plain_conversions_def plain_unsigned_7 in_decoder_def in_config_def
        in_text_def blank_parser_def)
  show ?thesis
    using r st ck n by (simp add: Parse_def)
qed


definition bad_confidence_request :: parsed_options where
  "bad_confidence_request =
     [(''score.lm'', ''1.0''), (''score.alignment'', ''1.0''), (''score.ngram'', ''1.0''),
      (''score.overlap'', ''1.0''), (''output.one_best'', ''/tmp/out.txt''),
      (''input.matched_file'', ''/tmp/in.txt''), (''input.confidence'', ''0.9 abc'')]"

lemma bad_confidence_Parse:
  "fst (Parse plain_conversions bad_confidence_request p)
     = Some (ArgumentParseError (BadConfidence ''0.9 abc''))"
proof -
  have "parse_registered (desc plain_conversions) bad_confidence_request
      = Inr bad_confidence_request"
    by (simp add: parse_registered_def bad_confidence_request_def desc_def find_description_def
        typed_value_def)
  moreover have "\<exists>vm. store (desc plain_conversions) bad_confidence_request Map.empty = Inr vm
      \<and> CheckOnce vm mandatory_options = None"
    by (simp add: store_def bad_confidence_request_def desc_def find_description_def
        typed_value_def plain_conversions_def plain_decimal_1 mandatory_options_def count_def
        apply_default_def)
  moreover have "resolved bad_confidence_request ''input.confidence'' Some None
      = Some ''0.9 abc''"
    by (simp add: resolved_def option_text_def bad_confidence_request_def)
  moreover have "scan_stops_early plain_decimal ''0.9 abc''"
    by (simp add: scan_stops_early.simps extract_float_def accumulate_def isspace_def
        plain_decimal_def float_literal_def strip_sign_def is_sign_def isdigit_def
        decimal_value_def digit_value_def)
  ultimately show ?thesis
    by (auto simp: Parse_fst Parse_exception_def ParseConfidences_thrown plain_conversions_def)
qed

lemma scenario_RunDecoder:
  "RunDecoder two_inputs scenario_config
     = ([Open_one_best ''/tmp/out.txt'', Top_Write ''/tmp/out.txt'' [''first''] ''first'',
         Top_Write ''/tmp/out.txt'' [''second''] ''second''], None)"
  by (simp add: RunDecoder_def two_inputs_def scenario_config_def)

text \<open>
  Claim C9. What \<open>Parse\<close> throws for a request, the parser it leaves on success (the
  resolved configuration with its confidence vector), and what the connection is served
  do not depend on the parser the request meets, hence not on any request parsed on an
  earlier connection, successful or failed: the last of a sequence of connections is
  served as it would be by any other parser.
\<close>

theorem Parse_independent_of_history:
  "fst (Parse cv r p1) = fst (Parse cv r p2)
   \<and> (fst (Parse cv r p1) = None \<longrightarrow> snd (Parse cv r p1) = snd (Parse cv r p2))
   \<and> fst (serve_connection env cv r p1) = fst (serve_connection env cv r p2)
   \<and> accept_loop env cv p1 (earlier @ [r])
       = accept_loop env cv p1 earlier @ [fst (serve_connection env cv r p2)]"
proof (intro conjI impI)
  show "fst (Parse cv r p1) = fst (Parse cv r p2)" by (simp add: Parse_fst)
  show "fst (serve_connection env cv r p1) = fst (serve_connection env cv r p2)"
    by (rule serve_connection_fst)
  show "accept_loop env cv p1 (earlier @ [r])
       = accept_loop env cv p1 earlier @ [fst (serve_connection env cv r p2)]"
    by (simp add: accept_loop_map [of env cv p1 _ p2])
next
  assume "fst (Parse cv r p1) = None"
  then have "fst (Parse cv r p2) = None" by (simp add: Parse_fst)
  with \<open>fst (Parse cv r p1) = None\<close> show "snd (Parse cv r p1) = snd (Parse cv r p2)"
    by (simp add: Parse_snd_None)
qed

theorem Parse_independent_of_history_witness:
  "internal_beam_size (decoder (config
       (snd (Parse plain_conversions beam_only_request blank_parser)))) = 7
   \<and> snd (Parse plain_conversions scenario_request
            (snd (Parse plain_conversions beam_only_request blank_parser)))
       = snd (Parse plain_conversions scenario_request blank_parser)
   \<and> internal_beam_size (decoder (config
       (snd (Parse plain_conversions scenario_request
            (snd (Parse plain_conversions beam_only_request blank_parser)))))) = 500"
proof -
  let ?p1 = "snd (Parse plain_conversions beam_only_request blank_parser)"
  have 1: "internal_beam_size (decoder (config ?p1)) = 7"
    using beam_only_Parse by simp
  have n: "fst (Parse plain_conversions scenario_request ?p1) = None"
    by (simp add: scenario_Parse)
  have 2: "snd (Parse plain_conversions scenario_request ?p1)
       = snd (Parse plain_conversions scenario_request blank_parser)"
    using Parse_independent_of_history [of plain_conversions scenario_request ?p1 blank_parser]
      n by blast
  have "internal_beam_size (decoder (config
       (snd (Parse plain_conversions scenario_request blank_parser)))) = 500"
    by (simp add: scenario_Parse scenario_config_def)
  with 1 2 show ?thesis by simp
qed

definition bad_value_request :: parsed_options where
  "bad_value_request = (''beam_size'', ''abc'') # scenario_request"

lemma bad_value_store:
  "store (desc plain_conversions) bad_value_request Map.empty
     = Inl (invalid_option_value ''beam_size'' ''abc'')"
  by (simp add: store_def bad_value_request_def desc_def find_description_def typed_value_def
      plain_conversions_def plain_unsigned_def digits1_def isdigit_def)

lemma bad_value_Parse:
  "Parse plain_conversions bad_value_request p
     = (Some (std_exception (invalid_option_value ''beam_size'' ''abc'')), p)"
proof -
  have "parse_registered (desc plain_conversions) bad_value_request = Inr bad_value_request"
    by (simp add: parse_registered_def bad_value_request_def scenario_request_def desc_def
        find_description_def typed_value_def)
  then show ?thesis by (simp add: Parse_def bad_value_store)
qed

lemma store_Inl_thrown:
  assumes "isl (store (desc cv) r Map.empty)"
  shows "\<exists>l. Parse cv r p = (Some (std_exception l), p)"
proof (cases "parse_registered (desc cv) r")
  case (Inl e)
  then show ?thesis by (simp add: Parse_def)
next
  case (Inr opts)
  then have "opts = r" by (rule parse_registered_Inr)
  with Inr assms show ?thesis
    by (cases "store (desc cv) r Map.empty") (simp_all add: Parse_def)
qed

lemma store_rejects:
  assumes "\<not> distinct (map fst r)
     \<or> (\<exists>k t. (k, t) \<in> set r
          \<and> (case find_description ds k of None \<Rightarrow> True | Some d \<Rightarrow> parse d t = None))"
  shows "isl (store ds r Map.empty)"
proof (rule ccontr)
  assume "\<not> isl (store ds r Map.empty)"
  then obtain vm where st: "store ds r Map.empty = Inr vm"
    by (cases "store ds r Map.empty") auto
  then obtain vm' where so: "store_options ds r Map.empty = Inr vm'"
    by (auto simp: store_def split: sum.splits)
  from st have "distinct (map fst r)" by (rule store_distinct)
  with assms obtain k t where kt: "(k, t) \<in> set r"
    and c: "case find_description ds k of None \<Rightarrow> True | Some d \<Rightarrow> parse d t = None"
    by blast
  from store_options_value [OF so kt] c show False by auto
qed


text \<open>
  Claim C3, as the code has it. When \<open>Parse\<close> throws an \<open>ArgumentParseError\<close> (a
  mandatory key left out, a bad confidence string), the inner handler sends the client
  the text of the exception and the line end of \<open>std::endl\<close>, nothing else. When the
  option store of the library rejects the request (a key that is not declared, a key
  given twice, a token that does not convert), the exception is caught by the outer
  handler only: it is written to \<open>std::cerr\<close> and the client is sent nothing. In
  both cases the decoder is not run and the loop goes on: every later connection is
  served, and served exactly as by a parser that has seen no connection before.
\<close>

theorem validation_error_isolated:
  "(fst (Parse cv bad p) = Some (ArgumentParseError e) \<longrightarrow>
      fst (serve_connection env cv bad p)
        = \<lparr>reply = what e @ endl, logged = Some (ArgumentParseError e), dispatched = None,
           effects = []\<rparr>)
   \<and> (isl (store (desc cv) bad Map.empty) \<longrightarrow>
        (\<exists>l. fst (Parse cv bad p) = Some (std_exception l))
        \<and> fst (serve_connection env cv bad p)
            = \<lparr>reply = [], logged = fst (Parse cv bad p), dispatched = None, effects = []\<rparr>)
   \<and> (\<not> distinct (map fst bad)
        \<or> (\<exists>k t. (k, t) \<in> set bad
             \<and> (case find_description (desc cv) k of
                  None \<Rightarrow> True | Some d \<Rightarrow> parse d t = None))
      \<longrightarrow> isl (store (desc cv) bad Map.empty))
   \<and> accept_loop env cv p (bad # streams)
       = fst (serve_connection env cv bad p)
           # map (\<lambda>s. fst (serve_connection env cv s p0)) streams"
proof (intro conjI impI)
  assume "fst (Parse cv bad p) = Some (ArgumentParseError e)"
  then show "fst (serve_connection env cv bad p)
        = \<lparr>reply = what e @ endl, logged = Some (ArgumentParseError e), dispatched = None,
           effects = []\<rparr>"
    by (cases "Parse cv bad p") (simp add: serve_connection_def)
next
  assume "isl (store (desc cv) bad Map.empty)"
  then obtain l where l: "Parse cv bad p = (Some (std_exception l), p)"
    using store_Inl_thrown by blast
  then show "\<exists>l. fst (Parse cv bad p) = Some (std_exception l)" by simp
  from l show "fst (serve_connection env cv bad p)
      = \<lparr>reply = [], logged = fst (Parse cv bad p), dispatched = None, effects = []\<rparr>"
    by (simp add: serve_connection_def)
next
  assume "\<not> distinct (map fst bad)
        \<or> (\<exists>k t. (k, t) \<in> set bad
             \<and> (case find_description (desc cv) k of
                  None \<Rightarrow> True | Some d \<Rightarrow> parse d t = None))"
  then show "isl (store (desc cv) bad Map.empty)" by (rule store_rejects)
next
  show "accept_loop env cv p (bad # streams)
       = fst (serve_connection env cv bad p)
           # map (\<lambda>s. fst (serve_connection env cv s p0)) streams"
    by (simp add: accept_loop_map [of env cv _ streams p0] split: prod.splits)
qed

theorem validation_error_isolated_witness:
  "accept_loop two_inputs plain_conversions blank_parser
       [bad_confidence_request, bad_value_request, scenario_request]
     = [\<lparr>reply = ''0.9 abc'' @ endl,
         logged = Some (ArgumentParseError (BadConfidence ''0.9 abc'')),
         dispatched = None, effects = []\<rparr>,
        \<lparr>reply = [],
         logged = Some (std_exception (invalid_option_value ''beam_size'' ''abc'')),
         dispatched = None, effects = []\<rparr>,
        \<lparr>reply = ''Done'' @ endl, logged = None, dispatched = Some scenario_config,
         effects = [Open_one_best ''/tmp/out.txt'', Top_Write ''/tmp/out.txt'' [''first''] ''first'',
                    Top_Write ''/tmp/out.txt'' [''second''] ''second'']\<rparr>]
   \<and> isl (store (desc plain_conversions) bad_value_request Map.empty)"
proof -
  note t1 = validation_error_isolated [of plain_conversions bad_confidence_request blank_parser
      "BadConfidence ''0.9 abc''" two_inputs "[bad_value_request, scenario_request]" blank_parser]
  note t2 = validation_error_isolated [of plain_conversions bad_value_request blank_parser
      "BadConfidence []" two_inputs "[]" blank_parser]
  have b: "fst (Parse plain_conversions bad_confidence_request blank_parser)
      = Some (ArgumentParseError (BadConfidence ''0.9 abc''))"
    by (rule bad_confidence_Parse)
  have 1: "fst (serve_connection two_inputs plain_conversions bad_confidence_request blank_parser)
      = \<lparr>reply = what (BadConfidence ''0.9 abc'') @ endl,
         logged = Some (ArgumentParseError (BadConfidence ''0.9 abc'')),
         dispatched = None, effects = []\<rparr>"
    using t1 [THEN conjunct1] b by (rule mp)
  have f: "find_description (desc plain_conversions) ''beam_size''
      = Some (typed_value ''beam_size'' plain_unsigned
          (\<lambda>x. in_decoder (\<lambda>d. d\<lparr>internal_beam_size := x\<rparr>)) (Some 500))"
    by (simp add: find_description_def desc_def typed_value_def plain_conversions_def)
  have "(''beam_size'', ''abc'') \<in> set bad_value_request
      \<and> (case find_description (desc plain_conversions) ''beam_size'' of
            None \<Rightarrow> True | Some d \<Rightarrow> parse d ''abc'' = None)"
    by (simp add: f bad_value_request_def typed_value_def plain_unsigned_def digits1_def
        isdigit_def)
  then have "\<not> distinct (map fst bad_value_request)
      \<or> (\<exists>k t. (k, t) \<in> set bad_value_request
           \<and> (case find_description (desc plain_conversions) k of
                None \<Rightarrow> True | Some d \<Rightarrow> parse d t = None))"
    by (intro disjI2 exI)
  with t2 [THEN conjunct2, THEN conjunct2, THEN conjunct1]
  have s: "isl (store (desc plain_conversions) bad_value_request Map.empty)"
    by (rule mp)
  with t2 [THEN conjunct2, THEN conjunct1]
  have "(\<exists>l. fst (Parse plain_conversions bad_value_request blank_parser) = Some (std_exception l))
      \<and> fst (serve_connection two_inputs plain_conversions bad_value_request blank_parser)
          = \<lparr>reply = [], logged = fst (Parse plain_conversions bad_value_request blank_parser),
             dispatched = None, effects = []\<rparr>"
    by (rule mp)
  then have 2: "fst (serve_connection two_inputs plain_conversions bad_value_request blank_parser)
      = \<lparr>reply = [],
         logged = Some (std_exception (invalid_option_value ''beam_size'' ''abc'')),
         dispatched = None, effects = []\<rparr>"
    by (simp add: bad_value_Parse)
  have 3: "fst (serve_connection two_inputs plain_conversions scenario_request blank_parser)
      = \<lparr>reply = ''Done'' @ endl, logged = None, dispatched = Some scenario_config,
         effects = [Open_one_best ''/tmp/out.txt'', Top_Write ''/tmp/out.txt'' [''first''] ''first'',
                    Top_Write ''/tmp/out.txt'' [''second''] ''second'']\<rparr>"
    by (simp add: serve_connection_def scenario_Parse scenario_RunDecoder)
  have "accept_loop two_inputs plain_conversions blank_parser
       [bad_confidence_request, bad_value_request, scenario_request]
     = fst (serve_connection two_inputs plain_conversions bad_confidence_request blank_parser)
         # map (\<lambda>s. fst (serve_connection two_inputs plain_conversions s blank_parser))
             [bad_value_request, scenario_request]"
    using t1 by (rule conjunct2 [THEN conjunct2, THEN conjunct2])
  then have "accept_loop two_inputs plain_conversions blank_parser
       [bad_confidence_request, bad_value_request, scenario_request]
     = [\<lparr>reply = ''0.9 abc'' @ endl,
         logged = Some (ArgumentParseError (BadConfidence ''0.9 abc'')),
         dispatched = None, effects = []\<rparr>,
        \<lparr>reply = [],
         logged = Some (std_exception (invalid_option_value ''beam_size'' ''abc'')),
         dispatched = None, effects = []\<rparr>,
        \<lparr>reply = ''Done'' @ endl, logged = None, dispatched = Some scenario_config,
         effects = [Open_one_best ''/tmp/out.txt'', Top_Write ''/tmp/out.txt'' [''first''] ''first'',
                    Top_Write ''/tmp/out.txt'' [''second''] ''second'']\<rparr>]"
    by (simp add: 1 2 3)
  then show ?thesis using s by (rule conjI)
qed


text \<open>
  The claim as stated fails for a request that the library rejects: with
  \<open>beam_size = abc\<close> the request fails validation and the client receives no
  diagnostic text.
\<close>

theorem library_error_no_reply_counterexample:
  "fst (Parse plain_conversions bad_value_request blank_parser)
     = Some (std_exception (invalid_option_value ''beam_size'' ''abc''))
   \<and> fst (serve_connection two_inputs plain_conversions bad_value_request blank_parser)
     = \<lparr>reply = [],
        logged = Some (std_exception (invalid_option_value ''beam_size'' ''abc'')),
        dispatched = None, effects = []\<rparr>"
  by (simp add: serve_connection_def bad_value_Parse)



subsection \<open>Claims about mandatory keys and defaults\<close>

lemma store_options_registered:
  assumes "store_options ds r vm = Inr vm'"
  shows "parse_registered ds r = Inr r"
proof -
  have "\<And>k tok. (k, tok) \<in> set r \<Longrightarrow> find_description ds k \<noteq> None"
    using store_options_value [OF assms] by fastforce
  then have "find (\<lambda>(key, token). find_description ds key = None) r = None"
    by (auto simp: find_None_iff)
  then show ?thesis by (simp add: parse_registered_def)
qed

lemma store_registered:
  "store ds r Map.empty = Inr vm \<Longrightarrow> parse_registered ds r = Inr r"
  by (auto simp: store_def split: sum.splits dest: store_options_registered)

lemma count_list_distinct:
  "distinct xs \<Longrightarrow> count_list xs k = (if k \<in> set xs then 1 else 0)"
  by (induction xs) auto

lemma mandatory_no_default:
  "K \<in> set mandatory_options \<Longrightarrow> \<exists>d\<in>set (desc cv). long_name d = K \<and> default_value d = None"
  by (auto simp: desc_def typed_value_def mandatory_options_def)

lemma store_absent_mandatory:
  assumes st: "store (desc cv) r Map.empty = Inr vm" and K: "K \<in> set mandatory_options"
    and a: "K \<notin> fst ` set r"
  shows "vm K = None"
proof -
  from mandatory_no_default [OF K] obtain d where d: "d \<in> set (desc cv)" "long_name d = K"
    "default_value d = None" by blast
  have "vm (long_name d) = resolved_action r d"
    using st desc_distinct d(1) by (rule store_value)
  moreover have "option_text r K = None" using a by (simp add: option_text_None)
  ultimately show ?thesis using d by (simp add: resolved_action_def)
qed

lemma miscounted_key_throws:
  assumes K: "K \<in> set mandatory_options" and c: "count_list (map fst r) K \<noteq> 1"
  shows "Parse_exception cv r \<noteq> None"
proof
  assume "Parse_exception cv r = None"
  then obtain vm where st: "store (desc cv) r Map.empty = Inr vm"
    and ck: "CheckOnce vm mandatory_options = None"
    by (rule Parse_exception_None)
  from st have "distinct (map fst r)" by (rule store_distinct)
  with c have "K \<notin> fst ` set r" by (auto simp: count_list_distinct split: if_splits)
  with st K have "vm K = None" by (rule store_absent_mandatory)
  moreover from ck K have "vm K \<noteq> None" by (simp add: CheckOnce_None)
  ultimately show False by simp
qed

lemma serve_connection_thrown:
  assumes "fst (Parse cv r p) \<noteq> None"
  shows "dispatched (fst (serve_connection env cv r p)) = None
         \<and> effects (fst (serve_connection env cv r p)) = []"
  using assms
  by (cases "Parse cv r p")
    (auto simp: serve_connection_def split: option.splits exception.splits)

lemma first_missing_key_thrown:
  assumes st: "store (desc cv) r Map.empty = Inr vm" and K: "K \<in> set mandatory_options"
    and a: "K \<notin> fst ` set r"
    and b: "\<forall>k\<in>set (takeWhile (\<lambda>k. k \<noteq> K) mandatory_options). k \<in> fst ` set r"
  shows "fst (Parse cv r p) = Some (ArgumentParseError (ArgumentCountException K 1 0))"
proof -
  have "vm K = None" using st K a by (rule store_absent_mandatory)
  moreover have "\<forall>k\<in>set (takeWhile (\<lambda>k. k \<noteq> K) mandatory_options). vm k \<noteq> None"
    using b store_present [OF st] by blast
  ultimately have "CheckOnce vm mandatory_options = Some (ArgumentCountException K 1 0)"
    using K by (intro CheckOnce_first)
  then show ?thesis
    using st store_registered [OF st] by (simp add: Parse_fst Parse_exception_def)
qed

lemma what_missing:
  "what (ArgumentCountException K 1 0) = ''Expected '' @ K @ '' >= 1 times, got it 0.''"
  by (simp add: lexical_cast_string.simps digit_char_def)

definition repeated_request :: parsed_options where
  "repeated_request = (''score.lm'', ''2.0'') # scenario_request"

definition missing_lm_request :: parsed_options where
  "missing_lm_request =
     [(''score.alignment'', ''1.0''), (''score.ngram'', ''1.0''),
      (''score.overlap'', ''1.0''), (''output.one_best'', ''/tmp/out.txt''),
      (''input.matched_file'', ''/tmp/in.txt''), (''input.confidence'', ''0.9 0.8 0.95'')]"

definition two_missing_request :: parsed_options where
  "two_missing_request =
     [(''score.ngram'', ''1.0''),
      (''score.overlap'', ''1.0''), (''output.one_best'', ''/tmp/out.txt''),
      (''input.matched_file'', ''/tmp/in.txt''), (''input.confidence'', ''0.9 0.8 0.95'')]"

lemma plain_decimal_2: "plain_decimal ''2.0'' = Some 2"
  by (simp add: plain_decimal_def float_literal_def strip_sign_def is_sign_def isdigit_def
      decimal_value_def digit_value_def)

lemma repeated_Parse:
  "Parse plain_conversions repeated_request p
     = (Some (std_exception (multiple_occurrences ''score.lm'')), p)"
proof -
  have "parse_registered (desc plain_conversions) repeated_request = Inr repeated_request"
    by (simp add: parse_registered_def repeated_request_def scenario_request_def desc_def
        find_description_def typed_value_def)
  moreover have "store (desc plain_conversions) repeated_request Map.empty
      = Inl (multiple_occurrences ''score.lm'')"
    by (simp add: store_def repeated_request_def scenario_request_def desc_def
        find_description_def typed_value_def plain_conversions_def plain_decimal_2)
  ultimately show ?thesis by (simp add: Parse_def)
qed

lemma missing_lm_store: "\<not> isl (store (desc plain_conversions) missing_lm_request Map.empty)"
  by (simp add: store_def missing_lm_request_def desc_def find_description_def
      typed_value_def plain_conversions_def plain_decimal_1)

lemma two_missing_store: "\<not> isl (store (desc plain_conversions) two_missing_request Map.empty)"
  by (simp add: store_def two_missing_request_def desc_def find_description_def
      typed_value_def plain_conversions_def plain_decimal_1)

text \<open>
  Claim C1, as the code has it. A request that does not give a mandatory key exactly once
  never reaches the decoder and has no effect on files. When the request is stored
  without a library error (every key declared, none repeated, every token converts) and
  \<open>K\<close> is the first mandatory key, in the order of \<open>mandatory_options\<close>, that it
  omits, \<open>Parse\<close> throws \<open>ArgumentCountException\<close> for \<open>K\<close> and the client is sent
  \<open>Expected K >= 1 times, got it 0.\<close>
\<close>

theorem miscounted_mandatory_key_not_dispatched:
  "K \<in> set mandatory_options \<and> count_list (map fst request) K \<noteq> 1 \<longrightarrow>
     dispatched (fst (serve_connection env cv request p)) = None
     \<and> effects (fst (serve_connection env cv request p)) = []
     \<and> (K \<notin> fst ` set request
        \<and> \<not> isl (store (desc cv) request Map.empty)
        \<and> (\<forall>k\<in>set (takeWhile (\<lambda>k. k \<noteq> K) mandatory_options). k \<in> fst ` set request)
        \<longrightarrow> fst (Parse cv request p)
              = Some (ArgumentParseError (ArgumentCountException K 1 0))
            \<and> reply (fst (serve_connection env cv request p))
              = ''Expected '' @ K @ '' >= 1 times, got it 0.'' @ endl)"
proof (intro impI conjI; (elim conjE)?)
  assume K: "K \<in> set mandatory_options" and c: "count_list (map fst request) K \<noteq> 1"
  then have "fst (Parse cv request p) \<noteq> None"
    by (simp add: Parse_fst miscounted_key_throws)
  then show "dispatched (fst (serve_connection env cv request p)) = None"
    and "effects (fst (serve_connection env cv request p)) = []"
    by (simp_all add: serve_connection_thrown)
next
  assume K: "K \<in> set mandatory_options"
    and a: "K \<notin> fst ` set request"
    and s: "\<not> isl (store (desc cv) request Map.empty)"
    and b: "\<forall>k\<in>set (takeWhile (\<lambda>k. k \<noteq> K) mandatory_options). k \<in> fst ` set request"
  from s obtain vm where st: "store (desc cv) request Map.empty = Inr vm"
    by (cases "store (desc cv) request Map.empty") auto
  show e: "fst (Parse cv request p)
      = Some (ArgumentParseError (ArgumentCountException K 1 0))"
    using st K a b by (rule first_missing_key_thrown)
  then show "reply (fst (serve_connection env cv request p))
      = ''Expected '' @ K @ '' >= 1 times, got it 0.'' @ endl"
    using what_missing [of K]
    by (cases "Parse cv request p") (simp add: serve_connection_def del: what.simps)
qed


theorem miscounted_mandatory_key_not_dispatched_witness:
  "dispatched (fst (serve_connection two_inputs plain_conversions missing_lm_request
       blank_parser)) = None
   \<and> reply (fst (serve_connection two_inputs plain_conversions missing_lm_request
       blank_parser)) = ''Expected score.lm >= 1 times, got it 0.'' @ endl
   \<and> dispatched (fst (serve_connection two_inputs plain_conversions repeated_request
       blank_parser)) = None"
proof -
  have K: "''score.lm'' \<in> set mandatory_options" by (simp add: mandatory_options_def)
  have c1: "count_list (map fst missing_lm_request) ''score.lm'' \<noteq> 1"
    by (simp add: missing_lm_request_def)
  have c2: "count_list (map fst repeated_request) ''score.lm'' \<noteq> 1"
    by (simp add: repeated_request_def scenario_request_def)
  have a: "''score.lm'' \<notin> fst ` set missing_lm_request"
    by (simp add: missing_lm_request_def)
  have b: "\<forall>k\<in>set (takeWhile (\<lambda>k. k \<noteq> ''score.lm'') mandatory_options).
      k \<in> fst ` set missing_lm_request"
    by (simp add: mandatory_options_def)
  note t1 = miscounted_mandatory_key_not_dispatched [of "''score.lm''" missing_lm_request
      two_inputs plain_conversions blank_parser]
  note t2 = miscounted_mandatory_key_not_dispatched [of "''score.lm''" repeated_request
      two_inputs plain_conversions blank_parser]
  from t1 K c1 have 1: "dispatched (fst (serve_connection two_inputs plain_conversions
      missing_lm_request blank_parser)) = None" by blast
  from t1 K c1 a b missing_lm_store
  have "reply (fst (serve_connection two_inputs plain_conversions missing_lm_request
       blank_parser)) = ''Expected '' @ ''score.lm'' @ '' >= 1 times, got it 0.'' @ endl"
    by blast
  then have 2: "reply (fst (serve_connection two_inputs plain_conversions missing_lm_request
       blank_parser)) = ''Expected score.lm >= 1 times, got it 0.'' @ endl"
    by simp
  from t2 K c2 have 3: "dispatched (fst (serve_connection two_inputs plain_conversions
      repeated_request blank_parser)) = None" by blast
  from 1 2 3 show ?thesis by blast
qed

text \<open>
  The claim as stated fails in two ways. A key given twice is rejected by the option
  store of the library, not by \<open>CheckOnce\<close> (the count of a key in a \<open>std::map\<close>
  is never 2): the exception is outside the \<open>ArgumentParseError\<close> family and nothing
  is sent to the client. And a request that omits \<open>score.alignment\<close> together with
  \<open>score.lm\<close> is answered with the error for \<open>score.lm\<close> only.
\<close>

theorem mandatory_key_error_counterexample:
  "fst (serve_connection two_inputs plain_conversions repeated_request blank_parser)
     = \<lparr>reply = [], logged = Some (std_exception (multiple_occurrences ''score.lm'')),
        dispatched = None, effects = []\<rparr>
   \<and> ''score.alignment'' \<notin> fst ` set two_missing_request
   \<and> reply (fst (serve_connection two_inputs plain_conversions two_missing_request
       blank_parser)) = ''Expected score.lm >= 1 times, got it 0.'' @ endl"
proof -
  have 1: "fst (serve_connection two_inputs plain_conversions repeated_request blank_parser)
     = \<lparr>reply = [], logged = Some (std_exception (multiple_occurrences ''score.lm'')),
        dispatched = None, effects = []\<rparr>"
    by (simp add: serve_connection_def repeated_Parse)
  have 2: "''score.alignment'' \<notin> fst ` set two_missing_request"
    by (simp add: two_missing_request_def)
  obtain vm where st: "store (desc plain_conversions) two_missing_request Map.empty = Inr vm"
    using two_missing_store
    by (cases "store (desc plain_conversions) two_missing_request Map.empty") auto
  have "fst (Parse plain_conversions two_missing_request blank_parser)
      = Some (ArgumentParseError (ArgumentCountException ''score.lm'' 1 0))"
    using st by (rule first_missing_key_thrown)
      (simp_all add: mandatory_options_def two_missing_request_def)
  then have "reply (fst (serve_connection two_inputs plain_conversions two_missing_request
       blank_parser)) = what (ArgumentCountException ''score.lm'' 1 0) @ endl"
    by (cases "Parse plain_conversions two_missing_request blank_parser")
      (simp add: serve_connection_def del: what.simps)
  then have 3: "reply (fst (serve_connection two_inputs plain_conversions two_missing_request
       blank_parser)) = ''Expected score.lm >= 1 times, got it 0.'' @ endl"
    using what_missing [of "''score.lm''"] by (simp del: what.simps)
  from 1 2 3 show ?thesis by blast
qed

lemma store_options_upd:
  assumes "k \<notin> fst ` set r2"
  shows "store_options ds r2 (vm(k \<mapsto> v))
           = map_sum id (\<lambda>m. m(k \<mapsto> v)) (store_options ds r2 vm)"
proof -
  define U where "U = (\<lambda>m :: 'a variables_map. m(k \<mapsto> v))"
  have U1: "\<And>m key. key \<noteq> k \<Longrightarrow> U m key = m key"
    by (simp add: U_def)
  have U2: "\<And>m key v'. key \<noteq> k \<Longrightarrow> (U m)(key \<mapsto> v') = U (m(key \<mapsto> v'))"
    by (simp add: U_def fun_upd_twist)
  have "store_options ds r2 (U vm) = map_sum id U (store_options ds r2 vm)"
    using assms
  proof (induction r2 arbitrary: vm)
    case Nil
    then show ?case by simp
  next
    case (Cons a r2)
    obtain key token where a: "a = (key, token)" by (cases a)
    with Cons.prems have ne: "key \<noteq> k" and r2: "k \<notin> fst ` set r2" by auto
    show ?case
    proof (cases "find_description ds key")
      case None
      then show ?thesis by (simp add: a)
    next
      case d': (Some d')
      show ?thesis
      proof (cases "vm key")
        case (Some x)
        with d' show ?thesis by (simp add: a U1 [OF ne])
      next
        case None
        show ?thesis
        proof (cases "parse d' token")
          case n: None
          with d' None show ?thesis by (simp add: a U1 [OF ne])
        next
          case (Some v')
          have "store_options ds (a # r2) (U vm) = store_options ds r2 ((U vm)(key \<mapsto> v'))"
            using d' None Some by (simp add: a U1 [OF ne])
          also have "\<dots> = store_options ds r2 (U (vm(key \<mapsto> v')))"
            by (simp only: U2 [OF ne])
          also have "\<dots> = map_sum id U (store_options ds r2 (vm(key \<mapsto> v')))"
            by (rule Cons.IH [OF r2])
          also have "store_options ds r2 (vm(key \<mapsto> v')) = store_options ds (a # r2) vm"
            using d' None Some by (simp add: a)
          finally show ?thesis .
        qed
      qed
    qed
  qed
  then show ?thesis unfolding U_def .
qed

lemma store_options_insert:
  assumes "find_description ds k = Some d" and "parse d tok = Some v"
    and "k \<notin> fst ` set (r1 @ r2)" and "vm k = None"
  shows "store_options ds (r1 @ (k, tok) # r2) vm
      = map_sum id (\<lambda>m. m(k \<mapsto> v)) (store_options ds (r1 @ r2) vm)"
proof -
  define U where "U = (\<lambda>m :: 'a variables_map. m(k \<mapsto> v))"
  have U0: "\<And>m. store_options ds r2 (m(k \<mapsto> v)) = map_sum id U (store_options ds r2 m)"
    unfolding U_def using assms(3) by (intro store_options_upd) auto
  have "store_options ds (r1 @ (k, tok) # r2) vm = map_sum id U (store_options ds (r1 @ r2) vm)"
    using assms(3,4)
  proof (induction r1 arbitrary: vm)
    case Nil
    then show ?case using assms(1,2) by (simp add: U0 id_def)
  next
    case (Cons a r1)
    obtain key token where a: "a = (key, token)" by (cases a)
    with Cons.prems have ne: "key \<noteq> k" and r: "k \<notin> fst ` set (r1 @ r2)" by auto
    show ?case
    proof (cases "find_description ds key")
      case None
      then show ?thesis by (simp add: a)
    next
      case d': (Some d')
      show ?thesis
      proof (cases "vm key")
        case (Some x)
        with d' show ?thesis by (simp add: a)
      next
        case None
        show ?thesis
        proof (cases "parse d' token")
          case n: None
          with d' None show ?thesis by (simp add: a)
        next
          case (Some v')
          have k': "(vm(key \<mapsto> v')) k = None" using ne Cons.prems(2) by simp
          have "store_options ds ((a # r1) @ (k, tok) # r2) vm
              = store_options ds (r1 @ (k, tok) # r2) (vm(key \<mapsto> v'))"
            using d' None Some by (simp add: a)
          also have "\<dots> = map_sum id U (store_options ds (r1 @ r2) (vm(key \<mapsto> v')))"
            using r k' by (rule Cons.IH)
          also have "store_options ds (r1 @ r2) (vm(key \<mapsto> v'))
              = store_options ds ((a # r1) @ r2) vm"
            using d' None Some by (simp add: a)
          finally show ?thesis .
        qed
      qed
    qed
  qed
  then show ?thesis unfolding U_def .
qed

lemma find_skip: "\<not> P x \<Longrightarrow> find P (r1 @ x # r2) = find P (r1 @ r2)"
  by (induction r1) auto

lemma parse_registered_insert:
  assumes "find_description ds k \<noteq> None"
  shows "parse_registered ds (r1 @ (k, tok) # r2)
    = (case parse_registered ds (r1 @ r2) of
         Inl e \<Rightarrow> Inl e
       | Inr options \<Rightarrow> Inr (r1 @ (k, tok) # r2))"
  using assms by (simp add: parse_registered_def find_skip split: option.splits)

lemma store_insert:
  assumes dist: "distinct (map long_name ds)" and d: "d \<in> set ds"
    and p: "parse d tok = Some v" and dv: "default_value d = Some v"
    and k: "long_name d \<notin> fst ` set (r1 @ r2)"
  shows "store ds (r1 @ (long_name d, tok) # r2) Map.empty = store ds (r1 @ r2) Map.empty"
proof -
  have f: "find_description ds (long_name d) = Some d"
    using dist d by (rule find_description_distinct)
  have ins: "store_options ds (r1 @ (long_name d, tok) # r2) Map.empty
      = map_sum id (\<lambda>m. m(long_name d \<mapsto> v)) (store_options ds (r1 @ r2) Map.empty)"
    using f p k by (rule store_options_insert) simp
  show ?thesis
  proof (cases "store_options ds (r1 @ r2) Map.empty")
    case (Inl e)
    with ins show ?thesis by (simp add: store_def)
  next
    case (Inr m)
    have mk: "m (long_name d) = None"
      using store_options_other [OF Inr k] by simp
    have "fold apply_default ds (m(long_name d \<mapsto> v)) x = fold apply_default ds m x" for x
    proof (cases "x = long_name d")
      case True
      then show ?thesis
        using fold_apply_default_None [of ds d m, OF dist d mk] dv
        by (simp add: fold_apply_default_Some)
    next
      case False
      show ?thesis
      proof (cases "m x")
        case (Some a)
        with False show ?thesis by (simp add: fold_apply_default_Some)
      next
        case None
        show ?thesis
        proof (cases "x \<in> long_name ` set ds")
          case True
          then obtain d' where d': "d' \<in> set ds" "x = long_name d'" by auto
          then show ?thesis
            using False None fold_apply_default_None [of ds d' m, OF dist d'(1)] fold_apply_default_None [of ds d' "m(long_name d \<mapsto> v)", OF dist d'(1)] by simp
        next
          case n: False
          with False None show ?thesis by (simp add: fold_apply_default_other)
        qed
      qed
    qed
    then have "fold apply_default ds (m(long_name d \<mapsto> v)) = fold apply_default ds m"
      by (rule ext)
    with ins Inr show ?thesis by (simp add: store_def)
  qed
qed

lemma Parse_insert:
  assumes d: "d \<in> set (desc cv)" and p: "parse d tok = Some v" and dv: "default_value d = Some v"
    and k: "long_name d \<notin> fst ` set (r1 @ r2)"
  shows "Parse cv (r1 @ (long_name d, tok) # r2) p = Parse cv (r1 @ r2) p"
proof -
  have f: "find_description (desc cv) (long_name d) \<noteq> None"
    using find_description_distinct [OF desc_distinct d] by simp
  have st: "store (desc cv) (r1 @ (long_name d, tok) # r2) Map.empty
      = store (desc cv) (r1 @ r2) Map.empty"
    using desc_distinct d p dv k by (rule store_insert)
  show ?thesis
  proof (cases "parse_registered (desc cv) (r1 @ r2)")
    case (Inl e)
    then show ?thesis by (simp add: Parse_def parse_registered_insert [OF f])
  next
    case (Inr opts)
    then have "opts = r1 @ r2" by (rule parse_registered_Inr)
    with Inr show ?thesis by (simp add: Parse_def parse_registered_insert [OF f] st)
  qed
qed

lemma resolved_absent: "k \<notin> fst ` set r \<Longrightarrow> resolved r k cast dflt = dflt"
  by (simp add: resolved_def option_text_None [THEN iffD2])

text \<open>The defaults of the optional keys, written out as a request would give them.\<close>

definition default_texts :: parsed_options where
  "default_texts =
     [(''beam_size'', ''500''), (''length_normalize'', ''true''), (''output.nbest'', ''1''),
      (''horizon.radius'', ''5''), (''horizon.new'', ''false''),
      (''horizon.threshold'', ''0.8''), (''output.oracle_prefix'', []),
      (''align.pick_best'', ''false''), (''align.transitive'', ''false''),
      (''score.fuzz.ratio'', ''0.0'')]"

definition reads_defaults :: "conversions \<Rightarrow> bool" where
  "reads_defaults cv =
     (lexical_cast_unsigned cv ''500'' = Some 500 \<and> lexical_cast_unsigned cv ''1'' = Some 1
      \<and> lexical_cast_unsigned cv ''5'' = Some 5 \<and> lexical_cast_score cv ''0.8'' = Some 0.8
      \<and> lexical_cast_score cv ''0.0'' = Some 0.0)"

lemma validate_bool_texts:
  "validate_bool ''true'' = Some True" "validate_bool ''false'' = Some False"
  by (simp_all add: validate_bool_def tolower_def)

lemma default_texts_description:
  assumes "reads_defaults cv" and "(k, tok) \<in> set default_texts"
  shows "\<exists>d v. d \<in> set (desc cv) \<and> long_name d = k \<and> parse d tok = Some v
           \<and> default_value d = Some v"
proof -
  from assms(1) have c: "lexical_cast_unsigned cv ''500'' = Some 500"
    "lexical_cast_unsigned cv ''1'' = Some 1" "lexical_cast_unsigned cv ''5'' = Some 5"
    "lexical_cast_score cv ''0.8'' = Some 0.8" "lexical_cast_score cv ''0.0'' = Some 0"
    by (simp_all add: reads_defaults_def)
  from assms(2) have "k = ''beam_size'' \<and> tok = ''500'' \<or> k = ''length_normalize'' \<and> tok = ''true''
      \<or> k = ''output.nbest'' \<and> tok = ''1'' \<or> k = ''horizon.radius'' \<and> tok = ''5''
      \<or> k = ''horizon.new'' \<and> tok = ''false'' \<or> k = ''horizon.threshold'' \<and> tok = ''0.8''
      \<or> k = ''output.oracle_prefix'' \<and> tok = [] \<or> k = ''align.pick_best'' \<and> tok = ''false''
      \<or> k = ''align.transitive'' \<and> tok = ''false'' \<or> k = ''score.fuzz.ratio'' \<and> tok = ''0.0''"
    by (simp add: default_texts_def)
  then have "\<exists>d. find_description (desc cv) k = Some d
      \<and> (\<exists>v. parse d tok = Some v \<and> default_value d = Some v)"
    by (elim disjE conjE)
      (simp_all add: c desc_def find_description_def typed_value_def validate_bool_texts)
  then show ?thesis using find_description_Some by metis
qed

lemma no_oracle_without_prefix:
  assumes "output_oracle_prefix cfg = []"
  shows "Oracle_Write f nbest inp \<notin> set (fst (RunDecoder env cfg))"
proof
  assume "Oracle_Write f nbest inp \<in> set (fst (RunDecoder env cfg))"
  moreover have "list_all (names_output cfg) (fst (RunDecoder env cfg))"
    by (rule RunDecoder_names_output)
  ultimately have "names_output cfg (Oracle_Write f nbest inp)"
    unfolding list_all_iff by blast
  with assms show False by simp
qed

lemma plain_reads_defaults: "reads_defaults plain_conversions"
  by (simp add: reads_defaults_def plain_conversions_def plain_unsigned_def digits1_def
      plain_decimal_def float_literal_def strip_sign_def is_sign_def isdigit_def
      decimal_value_def digit_value_def)

text \<open>
  Claim C4. After a \<open>Parse\<close> that throws nothing, every optional key the request does
  not give holds its declared default: \<open>beam_size\<close> 500, \<open>length_normalize\<close> true,
  \<open>output.nbest\<close> 1, \<open>horizon.radius\<close> 5, \<open>horizon.new\<close> false,
  \<open>horizon.threshold\<close> 0.8, \<open>output.oracle_prefix\<close> empty (and then no oracle output
  is written), \<open>align.pick_best\<close> false, \<open>align.transitive\<close> false,
  \<open>score.fuzz.ratio\<close> 0.0. And a request that gives such a key with the text of its
  default, at any place, is parsed and served exactly as the request without it, provided
  the library's conversions read the default texts as the default numbers.
\<close>

theorem defaults_when_absent:
  "(fst (Parse cv r p) = None \<longrightarrow>
      (''beam_size'' \<notin> fst ` set r \<longrightarrow>
         internal_beam_size (decoder (config (snd (Parse cv r p)))) = 500)
    \<and> (''length_normalize'' \<notin> fst ` set r \<longrightarrow>
         length_normalize (decoder (config (snd (Parse cv r p)))) = True)
    \<and> (''output.nbest'' \<notin> fst ` set r \<longrightarrow>
         end_beam_size (decoder (config (snd (Parse cv r p)))) = 1)
    \<and> (''horizon.radius'' \<notin> fst ` set r \<longrightarrow>
         coverage_old_horizon (decoder (config (snd (Parse cv r p)))) = 5
         \<and> horizon_radius (text' (config (snd (Parse cv r p)))) = 5)
    \<and> (''horizon.new'' \<notin> fst ` set r \<longrightarrow>
         coverage_use_new (decoder (config (snd (Parse cv r p)))) = False)
    \<and> (''horizon.threshold'' \<notin> fst ` set r \<longrightarrow>
         coverage_stay_threshold (decoder (config (snd (Parse cv r p)))) = 0.8)
    \<and> (''output.oracle_prefix'' \<notin> fst ` set r \<longrightarrow>
         output_oracle_prefix (config (snd (Parse cv r p))) = []
         \<and> (\<forall>f nbest inp. Oracle_Write f nbest inp
               \<notin> set (fst (RunDecoder env (config (snd (Parse cv r p)))))))
    \<and> (''align.pick_best'' \<notin> fst ` set r \<longrightarrow>
         pick_best (text' (config (snd (Parse cv r p)))) = False)
    \<and> (''align.transitive'' \<notin> fst ` set r \<longrightarrow>
         transitive (text' (config (snd (Parse cv r p)))) = False)
    \<and> (''score.fuzz.ratio'' \<notin> fst ` set r \<longrightarrow>
         scorer_fuzz_ratio (decoder (config (snd (Parse cv r p)))) = 0.0))
   \<and> (reads_defaults cv \<and> (k, tok) \<in> set default_texts \<and> k \<notin> fst ` set (r1 @ r2) \<longrightarrow>
        Parse cv (r1 @ (k, tok) # r2) p = Parse cv (r1 @ r2) p
        \<and> serve_connection env cv (r1 @ (k, tok) # r2) p
            = serve_connection env cv (r1 @ r2) p)"
proof (intro conjI impI; (elim conjE)?)
  assume a: "reads_defaults cv" "(k, tok) \<in> set default_texts" "k \<notin> fst ` set (r1 @ r2)"
  from default_texts_description [OF a(1,2)] obtain d v where d: "d \<in> set (desc cv)"
    "long_name d = k" "parse d tok = Some v" "default_value d = Some v" by blast
  show e: "Parse cv (r1 @ (k, tok) # r2) p = Parse cv (r1 @ r2) p"
    using Parse_insert [OF d(1,3,4), of r1 r2 p] a(3) d(2) by simp
  show "serve_connection env cv (r1 @ (k, tok) # r2) p = serve_connection env cv (r1 @ r2) p"
    by (simp add: serve_connection_def e)
next
  assume n: "fst (Parse cv r p) = None" and k: "''output.oracle_prefix'' \<notin> fst ` set r"
  then show o: "output_oracle_prefix (config (snd (Parse cv r p))) = []"
    by (simp add: Parse_snd_None resolved_config_def resolved_parser_def resolved_absent)
  then show "\<forall>f nbest inp. Oracle_Write f nbest inp
               \<notin> set (fst (RunDecoder env (config (snd (Parse cv r p)))))"
    by (simp add: no_oracle_without_prefix)
qed (simp_all add: Parse_snd_None resolved_config_def resolved_parser_def resolved_absent)

theorem defaults_when_absent_witness:
  "internal_beam_size (decoder (config
       (snd (Parse plain_conversions scenario_request blank_parser)))) = 500
   \<and> coverage_stay_threshold (decoder (config
       (snd (Parse plain_conversions scenario_request blank_parser)))) = 0.8
   \<and> Parse plain_conversions (scenario_request @ [(''beam_size'', ''500'')]) blank_parser
       = Parse plain_conversions scenario_request blank_parser
   \<and> serve_connection two_inputs plain_conversions
         ((''output.oracle_prefix'', []) # scenario_request) blank_parser
       = serve_connection two_inputs plain_conversions scenario_request blank_parser"
proof -
  note t = defaults_when_absent [of plain_conversions scenario_request blank_parser]
  have n: "fst (Parse plain_conversions scenario_request blank_parser) = None"
    by (simp add: scenario_Parse)
  have a1: "''beam_size'' \<notin> fst ` set scenario_request"
    and a2: "''horizon.threshold'' \<notin> fst ` set scenario_request"
    and a3: "''output.oracle_prefix'' \<notin> fst ` set scenario_request"
    by (simp_all add: scenario_request_def)
  have 1: "internal_beam_size (decoder (config
       (snd (Parse plain_conversions scenario_request blank_parser)))) = 500"
    using t [of two_inputs] n a1 by blast
  have 2: "coverage_stay_threshold (decoder (config
       (snd (Parse plain_conversions scenario_request blank_parser)))) = 0.8"
    using t [of two_inputs] n a2 by blast
  have m1: "(''beam_size'', ''500'') \<in> set default_texts"
    and m2: "(''output.oracle_prefix'', []) \<in> set default_texts"
    by (simp_all add: default_texts_def)
  have "''beam_size'' \<notin> fst ` set (scenario_request @ [])" using a1 by simp
  with plain_reads_defaults m1
  have "Parse plain_conversions (scenario_request @ (''beam_size'', ''500'') # []) blank_parser
       = Parse plain_conversions (scenario_request @ []) blank_parser"
    using defaults_when_absent [of plain_conversions _ blank_parser two_inputs
        "''beam_size''" "''500''" scenario_request "[]"]
    by blast
  then have 3: "Parse plain_conversions (scenario_request @ [(''beam_size'', ''500'')])
        blank_parser = Parse plain_conversions scenario_request blank_parser"
    by simp
  have "''output.oracle_prefix'' \<notin> fst ` set ([] @ scenario_request)" using a3 by simp
  with plain_reads_defaults m2
  have "serve_connection two_inputs plain_conversions
         ([] @ (''output.oracle_prefix'', []) # scenario_request) blank_parser
       = serve_connection two_inputs plain_conversions ([] @ scenario_request) blank_parser"
    using defaults_when_absent [of plain_conversions _ blank_parser two_inputs
        "''output.oracle_prefix''" "[]" "[]" scenario_request]
    by blast
  then have 4: "serve_connection two_inputs plain_conversions
         ((''output.oracle_prefix'', []) # scenario_request) blank_parser
       = serve_connection two_inputs plain_conversions scenario_request blank_parser"
    by simp
  from 1 2 3 4 show ?thesis by blast
qed

subsection \<open>Claims about startup\<close>

lemma digit_char_facts:
  assumes "d < 10"
  shows "digit_value (digit_char d) = d" and "isdigit (digit_char d)"
proof -
  from assms have "d = 0 \<or> d = 1 \<or> d = 2 \<or> d = 3 \<or> d = 4 \<or> d = 5 \<or> d = 6 \<or> d = 7
      \<or> d = 8 \<or> d = 9" by arith
  then show "digit_value (digit_char d) = d" and "isdigit (digit_char d)"
    by (auto simp: digit_char_def digit_value_def isdigit_def)
qed

lemma decimal_value_snoc:
  "decimal_value (ds @ [c]) = 10 * decimal_value ds + digit_value c"
  by (simp add: decimal_value_def)

lemma decimal_value_lexical_cast_string: "decimal_value (lexical_cast_string n) = n"
proof (induction n rule: lexical_cast_string.induct)
  case (1 n)
  show ?case
  proof (cases "n < 10")
    case True
    then show ?thesis
      by (subst lexical_cast_string.simps)
        (simp add: decimal_value_def digit_char_facts)
  next
    case False
    then have "decimal_value (lexical_cast_string (n div 10)) = n div 10"
      by (rule "1.IH")
    with False show ?thesis
      by (subst lexical_cast_string.simps)
        (simp add: decimal_value_snoc digit_char_facts)
  qed
qed

lemma lexical_cast_string_digits:
  "lexical_cast_string n \<noteq> [] \<and> list_all isdigit (lexical_cast_string n)"
proof (induction n rule: lexical_cast_string.induct)
  case (1 n)
  show ?case
  proof (cases "n < 10")
    case True
    then show ?thesis
      by (subst (1 2) lexical_cast_string.simps) (simp add: digit_char_facts)
  next
    case False
    with "1.IH" show ?thesis
      by (subst (1 2) lexical_cast_string.simps) (simp add: digit_char_facts)
  qed
qed

lemma digit_not_sign: "isdigit c \<Longrightarrow> \<not> is_sign c"
  by (auto simp: is_sign_def isdigit_def)

lemma lexical_cast_short_decimal:
  "lexical_cast_short (lexical_cast_string n)
     = (if n \<le> 32767 then Some (word_of_nat n) else None)"
proof -
  let ?s = "lexical_cast_string n"
  have ne: "?s \<noteq> []" and ds: "list_all isdigit ?s"
    using lexical_cast_string_digits by simp_all
  then have "isdigit (hd ?s)" by (cases ?s) auto
  then have ns: "\<not> is_sign (hd ?s)" and nm: "hd ?s \<noteq> CHR ''-''"
    by (auto simp: is_sign_def isdigit_def)
  show ?thesis
    using ne ds ns nm
    by (simp add: lexical_cast_short_def decimal_value_lexical_cast_string)
qed

lemma unat_port: "n \<le> 32767 \<Longrightarrow> unat (word_of_nat n :: 16 word) = n"
  by (simp add: unat_of_nat)

lemma sint_port: "n \<le> 32767 \<Longrightarrow> sint (word_of_nat n :: 16 word) = int n"
  by (simp add: signed_of_nat signed_take_bit_int_eq_self)


subsection \<open>Startup\<close>

lemma service_desc_distinct: "distinct (map long_name (service_desc cv))"
  by (simp add: service_desc_def typed_value_def)

lemma service_mandatory_or_default:
  "\<forall>d\<in>set (service_desc cv).
     long_name d \<in> set service_mandatory_options \<or> default_value d \<noteq> None"
  by (simp add: service_desc_def typed_value_def service_mandatory_options_def)

lemma service_mandatory_no_default:
  "k \<in> set service_mandatory_options \<Longrightarrow>
   \<exists>d\<in>set (service_desc cv). long_name d = k \<and> default_value d = None"
  by (auto simp: service_desc_def typed_value_def service_mandatory_options_def)

lemma service_all_resolved:
  assumes st: "store (service_desc cv) r Map.empty = Inr vm"
    and ck: "CheckOnce vm service_mandatory_options = None"
  shows "\<forall>d\<in>set (service_desc cv). resolved_action r d \<noteq> None"
proof
  fix d assume d: "d \<in> set (service_desc cv)"
  have v: "vm (long_name d) = resolved_action r d"
    using st service_desc_distinct d by (rule store_value)
  from service_mandatory_or_default d
  have "long_name d \<in> set service_mandatory_options \<or> default_value d \<noteq> None" by blast
  then show "resolved_action r d \<noteq> None"
  proof
    assume "long_name d \<in> set service_mandatory_options"
    with ck have "vm (long_name d) \<noteq> None" by (simp add: CheckOnce_None)
    with v show ?thesis by simp
  next
    assume dv: "default_value d \<noteq> None"
    show ?thesis
    proof (cases "long_name d \<in> fst ` set r")
      case True
      then have "vm (long_name d) \<noteq> None" by (rule store_present [OF st])
      with v show ?thesis by simp
    next
      case False
      then have "option_text r (long_name d) = None" by (simp add: option_text_None)
      with dv show ?thesis by (simp add: resolved_action_def)
    qed
  qed
qed

definition resolved_service :: "conversions \<Rightarrow> parsed_options \<Rightarrow> ServiceConfig" where
  "resolved_service cv r =
     \<lparr>lm = \<lparr>lm_type = the (resolved r ''lm.type'' Some (Some ''salm'')),
             lm_file = the (resolved r ''lm.file'' Some None),
             lm_order = the (resolved r ''lm.order'' (lexical_cast_unsigned cv) None)\<rparr>,
      port = the (resolved r ''port'' lexical_cast_short None)\<rparr>"

lemma service_notify_success:
  assumes st: "store (service_desc cv) r Map.empty = Inr vm"
    and ck: "CheckOnce vm service_mandatory_options = None"
  shows "notify (service_desc cv) vm cfg = resolved_service cv r"
proof -
  obtain l p where c: "cfg = \<lparr>lm = l, port = p\<rparr>" by (cases cfg) auto
  obtain t f ord where l: "l = \<lparr>lm_type = t, lm_file = f, lm_order = ord\<rparr>" by (cases l) auto
  have "fold (assign_from r) (service_desc cv) cfg = resolved_service cv r"
    using service_all_resolved [OF st ck]
    unfolding service_desc_def c l
    by (simp add: assign_from_typed resolved_service_def in_lm_def)
  then show ?thesis by (simp add: notify_store [OF st service_desc_distinct])
qed

lemma main_Inr:
  assumes "main cv argv cfg = Inr s"
  obtains vm where "store (service_desc cv) argv Map.empty = Inr vm"
    and "CheckOnce vm service_mandatory_options = None"
    and "lm_type (lm (resolved_service cv argv)) = ''salm''
         \<or> lm_type (lm (resolved_service cv argv)) = ''sri''"
    and "s = LoadAndRunService (resolved_service cv argv)"
proof -
  from assms obtain cfg' where ps: "ParseService cv argv cfg = (None, cfg')"
    and s: "s = LoadAndRunService cfg'"
    by (auto simp: main_def split: prod.splits option.splits)
  from ps obtain vm where st: "store (service_desc cv) argv Map.empty = Inr vm"
    and ck: "CheckOnce vm service_mandatory_options = None"
    by (auto simp: ParseService_def Let_def split: sum.splits option.splits if_splits
        dest: parse_registered_Inr)
  have pr: "parse_registered (service_desc cv) argv = Inr argv"
    using st by (rule store_registered)
  have n: "notify (service_desc cv) vm cfg = resolved_service cv argv"
    using st ck by (rule service_notify_success)
  from ps pr st ck n have "cfg' = resolved_service cv argv"
    and "lm_type (lm (resolved_service cv argv)) = ''salm''
         \<or> lm_type (lm (resolved_service cv argv)) = ''sri''"
    by (auto simp: ParseService_def Let_def split: if_splits)
  with st ck s that show ?thesis by blast
qed

lemma resolved_present:
  "distinct (map fst r) \<Longrightarrow> (k, tok) \<in> set r \<Longrightarrow> resolved r k cast dflt = cast tok"
  by (simp add: resolved_def option_text_distinct)

definition blank_service :: ServiceConfig where
  "blank_service = \<lparr>lm = \<lparr>lm_type = [], lm_file = [], lm_order = 0\<rparr>, port = 0\<rparr>"

lemma plain_unsigned_3: "plain_unsigned ''3'' = Some 3"
  by (simp add: plain_unsigned_def digits1_def isdigit_def decimal_value_def digit_value_def)

lemma lexical_cast_short_9000: "lexical_cast_short ''9000'' = Some 9000"
  by (simp add: lexical_cast_short_def is_sign_def isdigit_def decimal_value_def
      digit_value_def)

lemma lexical_cast_short_40000: "lexical_cast_short ''40000'' = None"
  by (simp add: lexical_cast_short_def is_sign_def isdigit_def decimal_value_def
      digit_value_def)

fun endpoint_port :: "service \<Rightarrow> nat option" where
  "endpoint_port (Listening ow p) = Some p"
| "endpoint_port Nothing = None"

lemma main_port:
  assumes m: "main cv argv cfg = Inr s" and p: "(''port'', tok) \<in> set argv"
  shows "\<exists>w. lexical_cast_short tok = Some w \<and> endpoint_port s = Some (unat w)"
proof -
  from m obtain vm where st: "store (service_desc cv) argv Map.empty = Inr vm"
    and ck: "CheckOnce vm service_mandatory_options = None"
    and ty: "lm_type (lm (resolved_service cv argv)) = ''salm''
         \<or> lm_type (lm (resolved_service cv argv)) = ''sri''"
    and s: "s = LoadAndRunService (resolved_service cv argv)"
    by (rule main_Inr)
  have dist: "distinct (map fst argv)" using st by (rule store_distinct)
  have r: "resolved argv ''port'' lexical_cast_short None = lexical_cast_short tok"
    using dist p by (rule resolved_present)
  have "resolved_action argv
      (typed_value ''port'' lexical_cast_short (\<lambda>x (c :: ServiceConfig). c\<lparr>port := x\<rparr>) None)
        \<noteq> None"
    using service_all_resolved [OF st ck] by (simp add: service_desc_def del: not_None_eq)
  then obtain w where w: "lexical_cast_short tok = Some w"
    by (auto simp: resolved_action_typed r)
  have "port (resolved_service cv argv) = w"
    by (simp add: resolved_service_def r w)
  with ty s have "endpoint_port s = Some (unat w)"
    by (auto simp: LoadAndRunService_def)
  with w show ?thesis by blast
qed

text \<open>
  Claim C6. When the command line gives \<open>lm.type\<close> a value other than \<open>sri\<close> and
  \<open>salm\<close>, or does not give one of \<open>lm.file\<close>, \<open>lm.order\<close>, \<open>port\<close> exactly
  once, \<open>ParseService\<close> throws, nothing catches the exception, and \<open>main\<close> ends
  before \<open>LoadAndRunService\<close>: no model is loaded and no socket is opened. With an
  unknown type on a command line that is otherwise stored and complete, the exception is
  \<open>NoSuchLMError\<close>.
\<close>

theorem startup_errors_abort:
  "((\<exists>v. (''lm.type'', v) \<in> set argv \<and> v \<noteq> ''sri'' \<and> v \<noteq> ''salm'')
     \<or> (\<exists>k\<in>set service_mandatory_options. count_list (map fst argv) k \<noteq> 1)
    \<longrightarrow> isl (main cv argv cfg))
   \<and> ((''lm.type'', v) \<in> set argv \<and> v \<noteq> ''sri'' \<and> v \<noteq> ''salm''
      \<and> (\<forall>k\<in>set service_mandatory_options. k \<in> fst ` set argv)
      \<and> \<not> isl (store (service_desc cv) argv Map.empty)
    \<longrightarrow> main cv argv cfg = Inl (ArgumentParseError (NoSuchLMError v)))"
proof (intro conjI impI)
  assume a: "(\<exists>v. (''lm.type'', v) \<in> set argv \<and> v \<noteq> ''sri'' \<and> v \<noteq> ''salm'')
     \<or> (\<exists>k\<in>set service_mandatory_options. count_list (map fst argv) k \<noteq> 1)"
  show "isl (main cv argv cfg)"
  proof (rule ccontr)
    assume "\<not> isl (main cv argv cfg)"
    then obtain s where "main cv argv cfg = Inr s" by (cases "main cv argv cfg") auto
    then obtain vm where st: "store (service_desc cv) argv Map.empty = Inr vm"
      and ck: "CheckOnce vm service_mandatory_options = None"
      and ty: "lm_type (lm (resolved_service cv argv)) = ''salm''
         \<or> lm_type (lm (resolved_service cv argv)) = ''sri''"
      by (rule main_Inr)
    have dist: "distinct (map fst argv)" using st by (rule store_distinct)
    from a show False
    proof
      assume "\<exists>v. (''lm.type'', v) \<in> set argv \<and> v \<noteq> ''sri'' \<and> v \<noteq> ''salm''"
      then obtain v where v: "(''lm.type'', v) \<in> set argv" "v \<noteq> ''sri''" "v \<noteq> ''salm''"
        by blast
      have "lm_type (lm (resolved_service cv argv)) = v"
        by (simp add: resolved_service_def resolved_present [OF dist v(1)])
      with ty v show False by simp
    next
      assume "\<exists>k\<in>set service_mandatory_options. count_list (map fst argv) k \<noteq> 1"
      then obtain k where k: "k \<in> set service_mandatory_options"
        and c: "count_list (map fst argv) k \<noteq> 1" by blast
      from c dist have ab: "k \<notin> fst ` set argv"
        by (auto simp: count_list_distinct split: if_splits)
      from service_mandatory_no_default [OF k] obtain d where d: "d \<in> set (service_desc cv)"
        "long_name d = k" "default_value d = None" by blast
      have "vm (long_name d) = resolved_action argv d"
        using st service_desc_distinct d(1) by (rule store_value)
      moreover have "option_text argv k = None" using ab by (simp add: option_text_None)
      ultimately have "vm k = None" using d by (simp add: resolved_action_def)
      moreover from ck k have "vm k \<noteq> None" by (simp add: CheckOnce_None)
      ultimately show False by simp
    qed
  qed
next
  assume b: "(''lm.type'', v) \<in> set argv \<and> v \<noteq> ''sri'' \<and> v \<noteq> ''salm''
      \<and> (\<forall>k\<in>set service_mandatory_options. k \<in> fst ` set argv)
      \<and> \<not> isl (store (service_desc cv) argv Map.empty)"
  then obtain vm where st: "store (service_desc cv) argv Map.empty = Inr vm"
    by (cases "store (service_desc cv) argv Map.empty") auto
  have dist: "distinct (map fst argv)" using st by (rule store_distinct)
  have "\<forall>k\<in>set service_mandatory_options. vm k \<noteq> None"
    using b store_present [OF st] by blast
  then have ck: "CheckOnce vm service_mandatory_options = None" by (simp add: CheckOnce_None)
  have n: "notify (service_desc cv) vm cfg = resolved_service cv argv"
    using st ck by (rule service_notify_success)
  from b have "(''lm.type'', v) \<in> set argv" by blast
  then have ty: "lm_type (lm (resolved_service cv argv)) = v"
    by (simp add: resolved_service_def resolved_present [OF dist])
  show "main cv argv cfg = Inl (ArgumentParseError (NoSuchLMError v))"
    using b st ck store_registered [OF st]
    by (simp add: main_def ParseService_def n ty)
qed


theorem startup_errors_abort_witness:
  "main plain_conversions
       [(''lm.type'', ''kenlm''), (''lm.file'', ''model.salm''), (''lm.order'', ''3''),
        (''port'', ''9000'')] blank_service
     = Inl (ArgumentParseError (NoSuchLMError ''kenlm''))
   \<and> isl (main plain_conversions [(''lm.file'', ''model.salm''), (''lm.order'', ''3'')]
            blank_service)"
proof -
  let ?a = "[(''lm.type'', ''kenlm''), (''lm.file'', ''model.salm''), (''lm.order'', ''3''),
        (''port'', ''9000'')]"
  let ?b = "[(''lm.file'', ''model.salm''), (''lm.order'', ''3'')]"
  have s: "\<not> isl (store (service_desc plain_conversions) ?a Map.empty)"
    by (simp add: store_def service_desc_def find_description_def typed_value_def
        plain_conversions_def plain_unsigned_3 lexical_cast_short_9000)
  have h: "(''lm.type'', ''kenlm'') \<in> set ?a \<and> ''kenlm'' \<noteq> ''sri'' \<and> ''kenlm'' \<noteq> ''salm''
      \<and> (\<forall>k\<in>set service_mandatory_options. k \<in> fst ` set ?a)
      \<and> \<not> isl (store (service_desc plain_conversions) ?a Map.empty)"
    using s by (simp add: service_mandatory_options_def)
  have 1: "main plain_conversions ?a blank_service
      = Inl (ArgumentParseError (NoSuchLMError ''kenlm''))"
    using startup_errors_abort [where argv = "?a" and v = "''kenlm''"
        and cv = plain_conversions and cfg = blank_service] h
    by (rule conjunct2 [THEN mp])
  have "\<exists>k\<in>set service_mandatory_options. count_list (map fst ?b) k \<noteq> 1"
    by (simp add: service_mandatory_options_def)
  then have d: "(\<exists>v. (''lm.type'', v) \<in> set ?b \<and> v \<noteq> ''sri'' \<and> v \<noteq> ''salm'')
      \<or> (\<exists>k\<in>set service_mandatory_options. count_list (map fst ?b) k \<noteq> 1)"
    by (rule disjI2)
  have 2: "isl (main plain_conversions ?b blank_service)"
    using startup_errors_abort [where argv = "?b" and cv = plain_conversions
        and cfg = blank_service] d
    by (rule conjunct1 [THEN mp])
  from 1 2 show ?thesis by (rule conjI)
qed

text \<open>
  Claim C8, as the code has it. The port is a \<open>short int\<close>, 16 bits and signed: every
  value from 0 to 32767 given as \<open>port\<close> converts, is held by the \<open>short\<close>, and is the
  port the service listens on. A value above 32767 does not convert: the library throws
  and the process ends at startup.
\<close>

theorem port_is_short:
  "(n \<le> 32767 \<longrightarrow>
      lexical_cast_short (lexical_cast_string n) = Some (word_of_nat n)
      \<and> sint (word_of_nat n :: 16 word) = int n
      \<and> (lexical_cast_unsigned cv ord = Some k \<longrightarrow>
           main cv [(''lm.file'', f), (''lm.order'', ord), (''port'', lexical_cast_string n)] cfg
             = Inr (Listening (sa_Owner f k) n))
      \<and> ((''port'', lexical_cast_string n) \<in> set argv \<and> main cv argv cfg = Inr s \<longrightarrow>
           endpoint_port s = Some n))
   \<and> (32767 < n \<longrightarrow>
      lexical_cast_short (lexical_cast_string n) = None
      \<and> ((''port'', lexical_cast_string n) \<in> set argv \<longrightarrow> isl (main cv argv cfg)))"
proof (intro conjI impI; (elim conjE)?)
  assume n: "n \<le> 32767"
  then show c: "lexical_cast_short (lexical_cast_string n) = Some (word_of_nat n)"
    by (simp add: lexical_cast_short_decimal)
  from n show "sint (word_of_nat n :: 16 word) = int n" by (rule sint_port)
  {
    assume k: "lexical_cast_unsigned cv ord = Some k"
    let ?argv = "[(''lm.file'', f), (''lm.order'', ord), (''port'', lexical_cast_string n)]"
    obtain vm where st: "store (service_desc cv) ?argv Map.empty = Inr vm"
      by (simp add: store_def service_desc_def find_description_def typed_value_def k c)
    have "\<forall>k\<in>set service_mandatory_options. vm k \<noteq> None"
      using store_present [OF st] by (simp add: service_mandatory_options_def)
    then have ck: "CheckOnce vm service_mandatory_options = None"
      by (simp add: CheckOnce_None)
    have nt: "notify (service_desc cv) vm cfg = resolved_service cv ?argv"
      using st ck by (rule service_notify_success)
    have rs: "resolved_service cv ?argv
        = \<lparr>lm = \<lparr>lm_type = ''salm'', lm_file = f, lm_order = k\<rparr>, port = word_of_nat n\<rparr>"
      by (simp add: resolved_service_def resolved_def option_text_def k c)
    show "main cv ?argv cfg = Inr (Listening (sa_Owner f k) n)"
      using st ck store_registered [OF st] unat_port [OF n]
      by (simp add: main_def ParseService_def nt rs LoadAndRunService_def)
  }
  {
    assume p: "(''port'', lexical_cast_string n) \<in> set argv" and m: "main cv argv cfg = Inr s"
    from main_port [OF m p] c n show "endpoint_port s = Some n"
      by (auto simp: unat_port)
  }
next
  assume n: "32767 < n"
  then show c: "lexical_cast_short (lexical_cast_string n) = None"
    by (simp add: lexical_cast_short_decimal)
  {
    assume p: "(''port'', lexical_cast_string n) \<in> set argv"
    show "isl (main cv argv cfg)"
    proof (rule ccontr)
      assume "\<not> isl (main cv argv cfg)"
      then obtain s where "main cv argv cfg = Inr s" by (cases "main cv argv cfg") auto
      from main_port [OF this p] c show False by simp
    qed
  }
qed

theorem port_is_short_witness:
  "main plain_conversions
       [(''lm.file'', ''model.salm''), (''lm.order'', ''3''), (''port'', ''9000'')] blank_service
     = Inr (Listening (sa_Owner ''model.salm'' 3) 9000)
   \<and> lexical_cast_short ''32767'' = Some 32767
   \<and> lexical_cast_short ''32768'' = None"
proof -
  have s1: "lexical_cast_string 9000 = ''9000''"
    and s2: "lexical_cast_string 32767 = ''32767''"
    and s3: "lexical_cast_string 32768 = ''32768''"
    by (simp_all add: lexical_cast_string.simps digit_char_def)
  have u: "lexical_cast_unsigned plain_conversions ''3'' = Some 3"
    by (simp add: plain_conversions_def plain_unsigned_3)
  have 1: "main plain_conversions
       [(''lm.file'', ''model.salm''), (''lm.order'', ''3''), (''port'', ''9000'')] blank_service
     = Inr (Listening (sa_Owner ''model.salm'' 3) 9000)"
    using port_is_short [of 9000 plain_conversions "''3''" 3 "''model.salm''" blank_service] u
    by (simp add: s1)
  have 2: "lexical_cast_short ''32767'' = Some 32767"
    using port_is_short [of 32767 plain_conversions] by (simp add: s2)
  have 3: "lexical_cast_short ''32768'' = None"
    using port_is_short [of 32768 plain_conversions] by (simp add: s3)
  from 1 2 3 show ?thesis by blast
qed

text \<open>
  The claim as stated fails above 32767: with \<open>port\<close> 40000, which an unsigned 16-bit
  port would hold, the conversion to \<open>short\<close> fails and startup ends with the
  library's exception.
\<close>

theorem port_unsigned_counterexample:
  "main plain_conversions
       [(''lm.type'', ''salm''), (''lm.file'', ''model.salm''), (''lm.order'', ''3''),
        (''port'', ''40000'')] blank_service
     = Inl (std_exception (invalid_option_value ''port'' ''40000''))"
proof -
  let ?a = "[(''lm.type'', ''salm''), (''lm.file'', ''model.salm''), (''lm.order'', ''3''),
        (''port'', ''40000'')]"
  have "parse_registered (service_desc plain_conversions) ?a = Inr ?a"
    by (simp add: parse_registered_def service_desc_def find_description_def typed_value_def)
  moreover have "store (service_desc plain_conversions) ?a Map.empty
      = Inl (invalid_option_value ''port'' ''40000'')"
    by (simp add: store_def service_desc_def find_description_def typed_value_def
        plain_conversions_def plain_unsigned_3 lexical_cast_short_40000)
  ultimately show ?thesis by (simp add: main_def ParseService_def)
qed

end
